theory Spec2Isabelle
  imports Main "HOL-Library.Word"
begin

unbundle bit_operations_syntax

section \<open>TEZ: a zipfile appended to the running executable\<close>

text \<open>
  The development follows \<^verbatim>\<open>tez.hh\<close>, \<^verbatim>\<open>tez_archive.cc\<close> and \<^verbatim>\<open>tez_file.cc\<close>.
  Bytes are \<open>8 word\<close>, the C++ \<open>uint16_t\<close> and \<open>uint32_t\<close> are \<open>16 word\<close> and
  \<open>32 word\<close> (arithmetic wraps), \<open>ssize_t\<close>, \<open>int\<close> and stream positions are \<open>int\<close>
  (the code checks that the file size fits 32 bits before it computes with it, and
  \<open>ssize_t\<close> is taken to be 64 bits wide). A \<open>std::string\<close> is the list of its bytes.
  Every \<open>throw\<close> is the \<open>Inl\<close> branch of a sum; a function that changes members of
  the archive before it throws returns the changed archive next to the error.
\<close>

type_synonym byte = "8 word"
type_synonym u16 = "16 word"
type_synonym u32 = "32 word"

datatype error =
    SystemError                    \<comment> \<open>the executable could not be opened\<close>
  | Zip64TooLarge                  \<comment> \<open>"Zip64 is not implemented and this executable is too large"\<close>
  | ExecutableTooSmall             \<comment> \<open>"executable too small to possibly be a zipfile"\<close>
  | NotAZipfile                    \<comment> \<open>"executable does not appear to contain a zipfile"\<close>
  | MultipartNotSupported          \<comment> \<open>"multipart zipfiles are not supported"\<close>
  | CentralDirectoryCorrupted      \<comment> \<open>"central directory is corrupted"\<close>
  | NotPkzip2Compatible            \<comment> \<open>"zipfile is not PKZIP 2.0 compatible"\<close>
  | EncryptedMember                \<comment> \<open>"zipfile contains an encrypted member"\<close>
  | UsesDataDescriptors            \<comment> \<open>"zipfile uses Data Descriptors"\<close>
  | UnsupportedGPBFFlags           \<comment> \<open>"zipfile member uses unsupported GPBF flags"\<close>
  | UnsupportedCompressionMethod   \<comment> \<open>"zipfile uses a compression method other than deflate"\<close>
  | FileHeaderCorrupted            \<comment> \<open>"file header is corrupted"\<close>
  | FileIndexOutOfRange            \<comment> \<open>"file index out of range"\<close>
  | IosFailure                     \<comment> \<open>\<open>std::ios_base::failure\<close>: short read or failed seek\<close>
  | ZlibInitFailed                 \<comment> \<open>"could not initialize zlib"\<close>
  | ZlibError                      \<comment> \<open>"zlib error"\<close>
  | ChecksumMismatch               \<comment> \<open>"checksum mismatch"\<close>
  | AssertionFailed                \<comment> \<open>an \<open>assert\<close> whose condition is false\<close>
  | OutOfBoundsAccess              \<comment> \<open>a read outside the buffer: undefined behaviour\<close>

subsection \<open>Little-endian fields\<close>

text \<open>\<open>get_uint32\<close> and \<open>get_uint16\<close> read from a pointer; the pointer \<open>p + k\<close> into a
  buffer is \<open>drop k\<close> of the list from \<open>p\<close> on.\<close>

definition get_uint32 :: "byte list \<Rightarrow> u32" where
  "get_uint32 p =
     ucast (p ! 0) OR push_bit 8 (ucast (p ! 1)) OR
     push_bit 16 (ucast (p ! 2)) OR push_bit 24 (ucast (p ! 3))"

definition get_uint16 :: "byte list \<Rightarrow> u16" where
  "get_uint16 p = ucast (p ! 0) OR push_bit 8 (ucast (p ! 1))"

definition END_OF_CENTRAL_DIRECTORY_LEN :: int where
  "END_OF_CENTRAL_DIRECTORY_LEN = 22"

definition CENTRAL_DIRECTORY_RECORD_LEN :: nat where
  "CENTRAL_DIRECTORY_RECORD_LEN = 46"

definition LOCAL_FILE_HEADER_LEN :: nat where
  "LOCAL_FILE_HEADER_LEN = 30"

definition METHOD_STORE :: u16 where
  "METHOD_STORE = 0"

definition METHOD_DEFLATE :: u16 where
  "METHOD_DEFLATE = 8"

subsection \<open>The classes \<open>TEZ::file\<close> and \<open>TEZ::archive\<close>\<close>

text \<open>The class \<open>TEZ::file\<close> (\<open>file\<close> is a keyword here). \<open>filename\<close> points at a key of \<open>file_map\<close> and \<open>comment\<close> is a
  \<open>unique_ptr\<close>: \<open>None\<close> is the null pointer. The member \<open>method\<close> is \<open>file_method\<close>.\<close>

record tez_file =
  offset :: u32
  crc32 :: u32
  compressed_size :: u32
  uncompressed_size :: u32
  filename :: "byte list option"
  comment :: "byte list option"
  file_method :: u16

text \<open>A value-initialised entry, as \<open>std::make_unique<file[]>(n)\<close> makes them.\<close>

definition new_file :: tez_file where
  "new_file = \<lparr> offset = 0, crc32 = 0, compressed_size = 0, uncompressed_size = 0,
                filename = None, comment = None, file_method = 0 \<rparr>"

text \<open>
  The archive. \<open>fbuf\<close> is the \<open>std::filebuf\<close>: the bytes of the opened executable, or
  \<open>None\<close> while it is closed. \<open>fpos\<close> is the read position of \<open>stream\<close> and
  \<open>failbits\<close> says that one of its error bits is set. \<open>streampos\<close> is the member of
  that name (where the archive believes the stream to be). \<open>files\<close> is the
  \<open>unique_ptr<file[]>\<close> base class (the empty list for the null pointer), and
  \<open>file_map\<close> is the \<open>unordered_map\<close>, kept as the list of its key-value pairs.
\<close>

record archive =
  fbuf :: "byte list option"
  fpos :: nat
  failbits :: bool
  streampos :: u32
  file_count :: u32
  files :: "tez_file list"
  file_map :: "(byte list \<times> u32) list"
  archive_comment :: "byte list option"

text \<open>The constructor: \<open>archive() : stream(&buf), streampos(0) {}\<close>.\<close>

definition new_archive :: archive where
  "new_archive = \<lparr> fbuf = None, fpos = 0, failbits = False, streampos = 0,
                   file_count = 0, files = [], file_map = [], archive_comment = None \<rparr>"

subsection \<open>Throwing and sequencing\<close>

text \<open>A member function of the archive takes the archive and returns its result, or the
  exception it throws, next to the archive as it then is.\<close>

type_synonym 'a action = "archive \<Rightarrow> (error + 'a) \<times> archive"

definition ret :: "'a \<Rightarrow> 'a action" where
  "ret x = (\<lambda>a. (Inr x, a))"

definition throw :: "error \<Rightarrow> 'a action" where
  "throw e = (\<lambda>a. (Inl e, a))"

definition modify :: "(archive \<Rightarrow> archive) \<Rightarrow> unit action" where
  "modify g = (\<lambda>a. (Inr (), g a))"

definition ebind :: "'a action \<Rightarrow> ('a \<Rightarrow> 'b action) \<Rightarrow> 'b action" where
  "ebind m k = (\<lambda>a. case m a of (Inl e, a') \<Rightarrow> (Inl e, a') | (Inr x, a') \<Rightarrow> k x a')"

subsection \<open>The input stream of the archive\<close>

text \<open>
  \<open>init\<close> sets \<open>stream.exceptions(failbit | badbit | eofbit)\<close>: the call throws when
  a bit is already set, and from then on a read that gets fewer bytes than asked for
  throws. \<open>seekg\<close> does nothing once \<open>failbit\<close> is set; on an open file it succeeds,
  also past the end; on a closed file it fails. A closed file has no bytes to read.
\<close>

definition exceptions :: "unit action" where
  "exceptions a = (if failbits a then (Inl IosFailure, a) else (Inr (), a))"

definition seekg :: "nat \<Rightarrow> unit action" where
  "seekg pos a =
     (if failbits a then (Inr (), a)
      else if fbuf a = None then (Inl IosFailure, a\<lparr>failbits := True\<rparr>)
      else (Inr (), a\<lparr>fpos := pos\<rparr>))"

definition file_bytes :: "archive \<Rightarrow> byte list" where
  "file_bytes a = (case fbuf a of None \<Rightarrow> [] | Some f \<Rightarrow> f)"

definition stream_read :: "nat \<Rightarrow> byte list action" where
  "stream_read n a =
     (if failbits a then (Inl IosFailure, a)
      else let bs = take n (drop (fpos a) (file_bytes a)) in
        if length bs < n
        then (Inl IosFailure, a\<lparr>fpos := fpos a + length bs, failbits := True\<rparr>)
        else (Inr bs, a\<lparr>fpos := fpos a + n\<rparr>))"

subsection \<open>\<open>purge\<close>, \<open>size\<close>, \<open>empty\<close>\<close>

text \<open>\<open>stream.setstate(goodbit)\<close> sets no bit and clears none, so \<open>failbits\<close> stays.\<close>

definition purge :: "archive \<Rightarrow> archive" where
  "purge a = a\<lparr> file_count := 0, files := [], fbuf := None, file_map := [],
               archive_comment := None \<rparr>"

definition size_archive :: "archive \<Rightarrow> u32" where
  "size_archive a = file_count a"

definition empty :: "archive \<Rightarrow> bool" where
  "empty a = (file_count a = 0)"

subsection \<open>\<open>read_eocd\<close>\<close>

text \<open>The two adjustments at the head of \<open>read_eocd\<close>: where the read starts and the
  longest comment that fits.\<close>

definition eocd_seek_off :: "int \<Rightarrow> int" where
  "eocd_seek_off file_size =
     (let seek_off = (file_size - 65535) - END_OF_CENTRAL_DIRECTORY_LEN
      in if seek_off < 0 then 0 else seek_off)"

definition eocd_max_comment_len :: "int \<Rightarrow> int" where
  "eocd_max_comment_len file_size =
     (let seek_off = (file_size - 65535) - END_OF_CENTRAL_DIRECTORY_LEN
      in if seek_off < 0 then 65535 + seek_off else 65535)"

text \<open>The \<open>for\<close> loop over \<open>comment_len\<close>: it returns the first \<open>comment_len\<close> at which
  the signature is found, or \<open>max_comment_len + 1\<close>.\<close>

function eocd_scan :: "byte list \<Rightarrow> int \<Rightarrow> int \<Rightarrow> int \<Rightarrow> int" where
  "eocd_scan buf buf_len max_comment_len comment_len =
     (if comment_len \<le> max_comment_len
      then if get_uint32 (drop (nat (buf_len - comment_len - END_OF_CENTRAL_DIRECTORY_LEN)) buf)
                = 0x06054b50
           then comment_len
           else eocd_scan buf buf_len max_comment_len (comment_len + 1)
      else comment_len)"
  by pat_completeness auto
termination
  by (relation "measure (\<lambda>(buf, buf_len, m, c). nat (m + 1 - c))") auto

declare eocd_scan.simps [simp del]

text \<open>The comment is copied from \<open>p + 22\<close> to \<open>p + 22 + comment_length\<close>, with the length
  the record declares. The buffer ends \<open>comment_len\<close> bytes after \<open>p + 22\<close>; a longer
  declared length reads past the end of the heap buffer, which is undefined behaviour.\<close>

definition read_eocd :: "int \<Rightarrow> u32 action" where
  "read_eocd file_size =
     (let max_comment_len = eocd_max_comment_len file_size;
          seek_off = eocd_seek_off file_size
      in if max_comment_len < 0 then throw ExecutableTooSmall
         else
           ebind (seekg (nat seek_off)) (\<lambda>_.
           let buf_len = max_comment_len + END_OF_CENTRAL_DIRECTORY_LEN in
           ebind (stream_read (nat buf_len)) (\<lambda>buf.
           let comment_len = eocd_scan buf buf_len max_comment_len 0 in
           if comment_len > max_comment_len then throw NotAZipfile
           else
             let p = drop (nat (buf_len - comment_len - END_OF_CENTRAL_DIRECTORY_LEN)) buf in
             if list_ex (\<lambda>b. b \<noteq> 0) (take 4 (drop 4 p)) then throw MultipartNotSupported
             else
               ebind (modify (\<lambda>a. a\<lparr>file_count := ucast (get_uint16 (drop 10 p))\<rparr>)) (\<lambda>_.
               ebind (modify (\<lambda>a. a\<lparr>files := replicate (unat (file_count a)) new_file\<rparr>)) (\<lambda>_.
               let cd_offset = get_uint32 (drop 16 p);
                   comment_length = get_uint16 (drop 20 p)
               in if length p < 22 + unat comment_length then throw OutOfBoundsAccess
                  else
                    ebind (modify (\<lambda>a. a\<lparr>archive_comment :=
                                     Some (take (unat comment_length) (drop 22 p))\<rparr>)) (\<lambda>_.
                    ret cd_offset))))))"

subsection \<open>\<open>read_central_directory\<close>\<close>

definition upd_file :: "nat \<Rightarrow> (tez_file \<Rightarrow> tez_file) \<Rightarrow> archive \<Rightarrow> archive" where
  "upd_file i g a = a\<lparr>files := (files a)[i := g (files a ! i)]\<rparr>"

text \<open>
  The body of the first \<open>for\<close> loop, for the record number \<open>fileno\<close>; it returns the
  file name it read (the element \<open>filenames[fileno]\<close>). In this member function of
  \<open>archive\<close> the name \<open>comment\<close> is the archive's member, not \<open>file.comment\<close>: each
  record's comment is read into the comment of the archive. When the read of the comment
  is cut short, the string keeps the bytes that arrived, then zeros.
\<close>

definition read_cd_record :: "nat \<Rightarrow> byte list action" where
  "read_cd_record fileno =
     ebind (stream_read CENTRAL_DIRECTORY_RECORD_LEN) (\<lambda>buf.
     if get_uint32 buf \<noteq> 0x02014b50 then throw CentralDirectoryCorrupted
     else if get_uint16 (drop 6 buf) > 20 then throw NotPkzip2Compatible
     else
       let general_bitflag = get_uint16 (drop 8 buf) in
       if general_bitflag AND 1 \<noteq> 0 then throw EncryptedMember
       else if general_bitflag AND 8 \<noteq> 0 then throw UsesDataDescriptors
       else if general_bitflag AND 0xF7F0 \<noteq> 0 then throw UnsupportedGPBFFlags
       else
         ebind (modify (upd_file fileno (\<lambda>f. f\<lparr>file_method := get_uint16 (drop 10 buf)\<rparr>))) (\<lambda>_.
         if get_uint16 (drop 10 buf) \<noteq> METHOD_STORE \<and> get_uint16 (drop 10 buf) \<noteq> METHOD_DEFLATE
         then throw UnsupportedCompressionMethod
         else
           ebind (modify (upd_file fileno (\<lambda>f. f\<lparr>crc32 := get_uint32 (drop 16 buf),
                    compressed_size := get_uint32 (drop 20 buf),
                    uncompressed_size := get_uint32 (drop 24 buf)\<rparr>))) (\<lambda>_.
           let filename_length = get_uint16 (drop 28 buf);
               extra_length = get_uint16 (drop 30 buf);
               comment_length = get_uint16 (drop 32 buf);
               disk_number = get_uint16 (drop 34 buf)
           in if disk_number > 0 then throw MultipartNotSupported
              else
                ebind (modify (upd_file fileno (\<lambda>f. f\<lparr>offset := get_uint32 (drop 42 buf)\<rparr>))) (\<lambda>_.
                ebind (stream_read (unat filename_length)) (\<lambda>filename.
                ebind (\<lambda>a. seekg (fpos a + unat extra_length) a) (\<lambda>_.
                ebind (modify (\<lambda>a. a\<lparr>archive_comment :=
                         Some (take (unat comment_length) (drop (fpos a) (file_bytes a))
                               @ replicate (unat comment_length
                                   - length (drop (fpos a) (file_bytes a))) 0)\<rparr>)) (\<lambda>_.
                ebind (stream_read (unat comment_length)) (\<lambda>_.
                ret filename))))))))"

text \<open>The first loop, over \<open>fileno = 0, ..., file_count - 1\<close>, filling \<open>filenames\<close>.\<close>

fun cd_loop :: "nat list \<Rightarrow> byte list list \<Rightarrow> byte list list action" where
  "cd_loop [] filenames = ret filenames"
| "cd_loop (fileno # rest) filenames =
     ebind (read_cd_record fileno) (\<lambda>filename.
       cd_loop rest (filenames[fileno := filename]))"

text \<open>\<open>unordered_map::emplace\<close> inserts nothing when the key is already there.\<close>

definition emplace :: "byte list \<Rightarrow> u32 \<Rightarrow> (byte list \<times> u32) list \<Rightarrow> (byte list \<times> u32) list" where
  "emplace k v m = (if map_of m k = None then m @ [(k, v)] else m)"

fun map_loop :: "nat list \<Rightarrow> byte list list \<Rightarrow> archive \<Rightarrow> archive" where
  "map_loop [] filenames a = a"
| "map_loop (fileno # rest) filenames a =
     map_loop rest filenames
       (a\<lparr>file_map := emplace (filenames ! fileno) (of_nat fileno) (file_map a)\<rparr>)"

text \<open>The third loop goes through the map and sets \<open>filename\<close> of the entry each key
  stands for.\<close>

fun name_loop :: "(byte list \<times> u32) list \<Rightarrow> archive \<Rightarrow> archive" where
  "name_loop [] a = a"
| "name_loop ((k, v) # rest) a =
     name_loop rest (upd_file (unat v) (\<lambda>f. f\<lparr>filename := Some k\<rparr>) a)"

text \<open>\<open>TEZ::file::read_header\<close>, for the entry number \<open>this\<close>.\<close>

definition read_header :: "nat \<Rightarrow> u32 \<Rightarrow> unit action" where
  "read_header this off =
     ebind (seekg (unat off)) (\<lambda>_.
     ebind (stream_read LOCAL_FILE_HEADER_LEN) (\<lambda>buf.
     if get_uint32 buf \<noteq> 0x04034b50 then throw FileHeaderCorrupted
     else
       let filename_length = get_uint16 (drop 26 buf);
           extra_length = get_uint16 (drop 28 buf)
       in modify (upd_file this (\<lambda>f. f\<lparr>offset :=
            off + of_nat LOCAL_FILE_HEADER_LEN + ucast filename_length + ucast extra_length\<rparr>))))"

fun header_loop :: "nat list \<Rightarrow> unit action" where
  "header_loop [] = ret ()"
| "header_loop (i # rest) =
     ebind (\<lambda>a. read_header i (offset (files a ! i)) a) (\<lambda>_. header_loop rest)"

definition read_central_directory :: "u32 \<Rightarrow> unit action" where
  "read_central_directory cd_offset =
     ebind (seekg (unat cd_offset)) (\<lambda>_.
     ebind (\<lambda>a. cd_loop [0..<unat (file_count a)] (replicate (unat (file_count a)) []) a)
       (\<lambda>filenames.
     ebind (modify (\<lambda>a. map_loop [0..<unat (file_count a)] filenames a)) (\<lambda>_.
     ebind (modify (\<lambda>a. name_loop (file_map a) a)) (\<lambda>_.
     (\<lambda>a. header_loop [0..<unat (file_count a)] a)))))"

subsection \<open>\<open>init\<close>\<close>

text \<open>
  Finding and opening the running executable is the platform's part; \<open>exe\<close> is what it
  gives: the bytes of the executable, or \<open>None\<close> when no file could be opened.
  \<open>init_try\<close> is the \<open>try\<close> block, \<open>init\<close> the whole function with its \<open>catch\<close>.
\<close>

definition init_try :: "unit action" where
  "init_try =
     ebind exceptions (\<lambda>_.
     ebind (\<lambda>a. seekg (length (file_bytes a)) a) (\<lambda>_.
     ebind (\<lambda>a. ret (int (fpos a)) a) (\<lambda>pos.
     if pos < 0 \<or> pos > 0xFFFFFFFF then throw Zip64TooLarge
     else
       ebind (read_eocd pos) (\<lambda>cd_offset.
       read_central_directory cd_offset))))"

definition init :: "byte list option \<Rightarrow> unit action" where
  "init exe a0 =
     (let a = purge a0 in
      case exe of
        None \<Rightarrow> (Inl SystemError, a)
      | Some f \<Rightarrow>
          (case init_try (a\<lparr>fbuf := Some f, fpos := 0\<rparr>) of
             (Inl e, a') \<Rightarrow> (Inl e, purge a')
           | (Inr u, a') \<Rightarrow> (Inr u, a')))"

subsection \<open>The container interface of \<open>tez.hh\<close>\<close>

text \<open>Iterators are positions in the array: \<open>begin()\<close> is 0 and \<open>end()\<close> is
  \<open>file_count\<close>.\<close>

definition at :: "archive \<Rightarrow> int \<Rightarrow> error + tez_file" where
  "at a index =
     (if index < 0 \<or> index \<ge> uint (file_count a) then Inl FileIndexOutOfRange
      else Inr (files a ! nat index))"

definition index_by_name :: "archive \<Rightarrow> byte list \<Rightarrow> error + tez_file" where
  "index_by_name a name =
     (case map_of (file_map a) name of
        None \<Rightarrow> Inl FileIndexOutOfRange
      | Some i \<Rightarrow> Inr (files a ! unat i))"

definition find_file :: "archive \<Rightarrow> byte list \<Rightarrow> nat" where
  "find_file a name =
     (case map_of (file_map a) name of
        None \<Rightarrow> unat (file_count a)
      | Some i \<Rightarrow> unat i)"

definition get_comment :: "archive \<Rightarrow> byte list \<times> archive" where
  "get_comment a =
     (case archive_comment a of
        None \<Rightarrow> ([], a\<lparr>archive_comment := Some []\<rparr>)
      | Some c \<Rightarrow> (c, a))"

definition file_get_comment :: "tez_file \<Rightarrow> byte list \<times> tez_file" where
  "file_get_comment f =
     (case comment f of
        None \<Rightarrow> ([], f\<lparr>comment := Some []\<rparr>)
      | Some c \<Rightarrow> (c, f))"

subsection \<open>\<open>read_for_file\<close>\<close>

definition read_for_file :: "u32 \<Rightarrow> u32 \<Rightarrow> byte list action" where
  "read_for_file off len =
     ebind (\<lambda>a. if streampos a \<noteq> off then seekg (unat off) a else ret () a) (\<lambda>_.
     ebind (stream_read (unat len)) (\<lambda>buffer.
     ebind (modify (\<lambda>a. a\<lparr>streampos := off + len\<rparr>)) (\<lambda>_.
     ret buffer)))"

subsection \<open>\<open>std::streambuf\<close>: the get area\<close>

record streambuf =
  garea :: "byte list"
  gnext :: int

definition new_streambuf :: streambuf where
  "new_streambuf = \<lparr> garea = [], gnext = 0 \<rparr>"

type_synonym 's underflow = "'s \<Rightarrow> archive \<Rightarrow> ((error + byte option) \<times> 's \<times> archive) option"

definition sbumpc :: "('a streambuf_scheme) underflow \<Rightarrow> ('a streambuf_scheme) underflow" where
  "sbumpc uf sb a =
     (if gnext sb < int (length (garea sb))
      then if gnext sb < 0 then Some (Inl OutOfBoundsAccess, sb, a)
           else Some (Inr (Some (garea sb ! nat (gnext sb))), sb\<lparr>gnext := gnext sb + 1\<rparr>, a)
      else Option.bind (uf sb a) (\<lambda>(r, sb', a').
             case r of
               Inl e \<Rightarrow> Some (Inl e, sb', a')
             | Inr None \<Rightarrow> Some (Inr None, sb', a')
             | Inr (Some c) \<Rightarrow>
                 Some (Inr (Some (garea sb' ! nat (gnext sb'))), sb'\<lparr>gnext := gnext sb' + 1\<rparr>, a')))"

partial_function (option) read_to_end ::
  "('a streambuf_scheme) underflow \<Rightarrow> 'a streambuf_scheme \<Rightarrow> archive \<Rightarrow> byte list
     \<Rightarrow> (byte list \<times> error option \<times> 'a streambuf_scheme \<times> archive) option" where
  "read_to_end uf sb a acc =
     Option.bind (sbumpc uf sb a) (\<lambda>(r, sb', a').
       case r of
         Inl e \<Rightarrow> Some (acc, Some e, sb', a')
       | Inr None \<Rightarrow> Some (acc, None, sb', a')
       | Inr (Some c) \<Rightarrow> read_to_end uf sb' a' (acc @ [c]))"

record stored_data_streambuf = streambuf +
  start_pos :: u32
  cur_pos :: u32
  end_pos :: u32

definition stored_underflow ::
  "stored_data_streambuf \<Rightarrow> archive \<Rightarrow> (error + byte option) \<times> stored_data_streambuf \<times> archive" where
  "stored_underflow sb a =
     (if cur_pos sb = end_pos sb then (Inr None, sb, a)
      else
        let amount = end_pos sb - cur_pos sb;
            amount = (if amount > 4096 then 4096 else amount)
        in case read_for_file (cur_pos sb) amount a of
             (Inl e, a') \<Rightarrow> (Inl e, sb, a')
           | (Inr buffer, a') \<Rightarrow>
               (Inr (Some (buffer ! 0)),
                sb\<lparr>cur_pos := cur_pos sb + amount, garea := buffer, gnext := 0\<rparr>, a'))"

text \<open>\<open>sbumpc\<close> on a stored stream always returns.\<close>

definition stored_underflow_get ::
  "stored_data_streambuf \<Rightarrow> archive \<Rightarrow> (error + byte option) \<times> stored_data_streambuf \<times> archive" where
  "stored_underflow_get sb a =
     (case sbumpc (\<lambda>sb a. Some (stored_underflow sb a)) sb a of
        Some r \<Rightarrow> r
      | None \<Rightarrow> (Inr None, sb, a))"

definition stored_seekpos :: "int \<Rightarrow> stored_data_streambuf \<Rightarrow> int \<times> stored_data_streambuf" where
  "stored_seekpos off sb =
     (let off = (if off < 0 then 0
                 else if off > uint (end_pos sb - start_pos sb) then uint (end_pos sb - start_pos sb)
                 else off)
      in (off, sb\<lparr>cur_pos := start_pos sb + of_int off\<rparr>))"


text \<open>\<open>seekoff\<close> turns a relative offset into an absolute one and calls \<open>seekpos\<close>.\<close>

datatype seekdir = Beg | Cur | End

definition stored_seekoff ::
  "int \<Rightarrow> seekdir \<Rightarrow> stored_data_streambuf \<Rightarrow> int \<times> stored_data_streambuf" where
  "stored_seekoff off dir sb =
     (case dir of
        Beg \<Rightarrow> stored_seekpos off sb
      | Cur \<Rightarrow> stored_seekpos (off + uint (cur_pos sb - start_pos sb)) sb
      | End \<Rightarrow> stored_seekpos (off + uint (end_pos sb - start_pos sb)) sb)"

subsection \<open>zlib\<close>

text \<open>
  zlib is a library the code links against. Its checksum is defined here by the bitwise
  algorithm of CRC-32 (polynomial \<open>0xEDB88320\<close>, reflected), with the conditioning of
  \<open>crc32(crc, buf, len)\<close>: the running value is complemented on the way in and out.
\<close>

definition crc_shift :: "u32 \<Rightarrow> u32" where
  "crc_shift c = (if bit c 0 then drop_bit 1 c XOR 0xEDB88320 else drop_bit 1 c)"

definition crc_byte :: "byte \<Rightarrow> u32 \<Rightarrow> u32" where
  "crc_byte b c =
     crc_shift (crc_shift (crc_shift (crc_shift (crc_shift (crc_shift (crc_shift (crc_shift
       (c XOR ucast b))))))))"

definition zlib_crc32 :: "u32 \<Rightarrow> byte list \<Rightarrow> u32" where
  "zlib_crc32 c buf = NOT (fold crc_byte buf (NOT c))"

text \<open>
  The decompressor is a parameter of the model: its initial state as \<open>inflateInit2\<close>
  leaves it (\<open>None\<close> when that call does not return \<open>Z_OK\<close>), \<open>inflateReset\<close>, and
  \<open>inflate\<close>, which is given the internal state, the \<open>avail_in\<close> bytes at \<open>next_in\<close>
  and \<open>avail_out\<close>, and returns its return code, the new state, how many input bytes it
  consumed and the bytes it wrote at \<open>next_out\<close>.
\<close>

datatype zret = Z_OK | Z_STREAM_END | Z_NEED_DICT | Z_ERRNO | Z_STREAM_ERROR
  | Z_DATA_ERROR | Z_MEM_ERROR | Z_BUF_ERROR | Z_VERSION_ERROR

record 'z zlib =
  inflateInit2 :: "'z option"
  inflateReset :: "'z \<Rightarrow> 'z"
  inflate :: "'z \<Rightarrow> byte list \<Rightarrow> nat \<Rightarrow> zret \<times> 'z \<times> nat \<times> byte list"

subsection \<open>\<open>deflated_streambuf\<close>\<close>

text \<open>\<open>zs\<close> is the internal state of the \<open>z_stream\<close> base class and \<open>avail_in\<close> holds
  the bytes of \<open>in_buffer\<close> from \<open>next_in\<close> on; \<open>crc\<close> is the member of the class
  \<open>CRC32\<close>.\<close>

record 'z deflated_streambuf = streambuf +
  in_start_pos :: u32
  in_cur_pos :: u32
  in_end_pos :: u32
  out_cur_pos :: u32
  out_end_pos :: u32
  desired_crc :: u32
  crc :: u32
  zs :: 'z
  avail_in :: "byte list"

definition CRC32_new :: u32 where
  "CRC32_new = zlib_crc32 0 []"

text \<open>One turn of the \<open>do\<close> loop of \<open>underflow\<close>: it returns the bytes \<open>inflate\<close> wrote.\<close>

definition inflate_step ::
  "'z zlib \<Rightarrow> 'z deflated_streambuf \<Rightarrow> archive
     \<Rightarrow> (error + byte list) \<times> 'z deflated_streambuf \<times> archive" where
  "inflate_step Z sb a =
     (case (if avail_in sb = []
            then let amount = in_end_pos sb - in_cur_pos sb;
                     amount = (if amount > 4096 then 4096 else amount)
                 in case read_for_file (in_cur_pos sb) amount a of
                      (Inl e, a') \<Rightarrow> (Inl e, sb, a')
                    | (Inr buffer, a') \<Rightarrow>
                        (Inr (), sb\<lparr>in_cur_pos := in_cur_pos sb + amount, avail_in := buffer\<rparr>, a')
            else (Inr (), sb, a)) of
        (Inl e, sb1, a1) \<Rightarrow> (Inl e, sb1, a1)
      | (Inr _, sb1, a1) \<Rightarrow>
          (case inflate Z (zs sb1) (avail_in sb1) 4096 of
             (r, z', consumed, written) \<Rightarrow>
               let sb2 = sb1\<lparr>zs := z', avail_in := drop consumed (avail_in sb1)\<rparr>
               in if r \<noteq> Z_OK \<and> r \<noteq> Z_STREAM_END then (Inl ZlibError, sb2, a1)
                  else (Inr written, sb2, a1)))"

partial_function (option) inflate_loop ::
  "'z zlib \<Rightarrow> 'z deflated_streambuf \<Rightarrow> archive
     \<Rightarrow> ((error + byte list) \<times> 'z deflated_streambuf \<times> archive) option" where
  "inflate_loop Z sb a =
     (case inflate_step Z sb a of
        (Inl e, sb', a') \<Rightarrow> Some (Inl e, sb', a')
      | (Inr written, sb', a') \<Rightarrow>
          if written = [] then inflate_loop Z sb' a' else Some (Inr written, sb', a'))"

definition deflated_underflow :: "'z zlib \<Rightarrow> ('z deflated_streambuf) underflow" where
  "deflated_underflow Z sb a =
     (if out_cur_pos sb = out_end_pos sb then Some (Inr None, sb, a)
      else Option.bind (inflate_loop Z sb a) (\<lambda>(r, sb1, a1).
        case r of
          Inl e \<Rightarrow> Some (Inl e, sb1, a1)
        | Inr written \<Rightarrow>
            let sb2 = sb1\<lparr>garea := written, gnext := 0,
                          crc := zlib_crc32 (crc sb1) written,
                          out_cur_pos := out_cur_pos sb1 + of_nat (length written)\<rparr>
            in if out_cur_pos sb2 = out_end_pos sb2 \<and> \<not> (desired_crc sb2 = crc sb2)
               then Some (Inl ChecksumMismatch, sb2, a1)
               else Some (Inr (Some (written ! 0)), sb2, a1)))"

text \<open>The loop of \<open>seekpos\<close>: \<open>while(underflow() != eof && out_cur_pos >= off) {}\<close>.\<close>

partial_function (option) seek_loop ::
  "'z zlib \<Rightarrow> int \<Rightarrow> 'z deflated_streambuf \<Rightarrow> archive
     \<Rightarrow> ((error + unit) \<times> 'z deflated_streambuf \<times> archive) option" where
  "seek_loop Z off sb a =
     Option.bind (deflated_underflow Z sb a) (\<lambda>(r, sb', a').
       case r of
         Inl e \<Rightarrow> Some (Inl e, sb', a')
       | Inr None \<Rightarrow> Some (Inr (), sb', a')
       | Inr (Some c) \<Rightarrow>
           if uint (out_cur_pos sb') \<ge> off then seek_loop Z off sb' a'
           else Some (Inr (), sb', a'))"

text \<open>\<open>seekpos\<close> returns a position; \<open>std::char_traits<char>::eof()\<close> is \<open>-1\<close>, the
  position that reports failure.\<close>

definition deflated_seekpos ::
  "'z zlib \<Rightarrow> int \<Rightarrow> 'z deflated_streambuf \<Rightarrow> archive
     \<Rightarrow> ((error + int) \<times> 'z deflated_streambuf \<times> archive) option" where
  "deflated_seekpos Z off sb a =
     (let off = (if off < 0 then 0
                 else if off > uint (out_end_pos sb) then uint (out_end_pos sb)
                 else off);
          sb = (if off < uint (out_cur_pos sb)
                then sb\<lparr>zs := inflateReset Z (zs sb), crc := CRC32_new,
                        in_cur_pos := in_start_pos sb, out_cur_pos := 0\<rparr>
                else sb)
      in if off = uint (out_cur_pos sb)
         then Some (Inr (uint (out_cur_pos sb)), sb\<lparr>garea := [], gnext := 0\<rparr>, a)
         else Option.bind (seek_loop Z off sb a) (\<lambda>(r, sb', a').
           case r of
             Inl e \<Rightarrow> Some (Inl e, sb', a')
           | Inr _ \<Rightarrow>
               if out_cur_pos sb' = out_end_pos sb' then Some (Inr (- 1), sb', a')
               else
                 let overshoot_amount = uint (out_cur_pos sb') - off
                 in Some (Inr (uint (out_cur_pos sb')),
                          sb'\<lparr>gnext := int (length (garea sb')) - overshoot_amount\<rparr>, a')))"

definition deflated_seekoff ::
  "'z zlib \<Rightarrow> int \<Rightarrow> seekdir \<Rightarrow> 'z deflated_streambuf \<Rightarrow> archive
     \<Rightarrow> ((error + int) \<times> 'z deflated_streambuf \<times> archive) option" where
  "deflated_seekoff Z off dir sb a =
     (case dir of
        Beg \<Rightarrow> deflated_seekpos Z off sb a
      | Cur \<Rightarrow> deflated_seekpos Z (off + uint (out_cur_pos sb)) sb a
      | End \<Rightarrow> deflated_seekpos Z (off + uint (out_end_pos sb)) sb a)"

subsection \<open>\<open>TEZ::file::open\<close>\<close>

datatype 'z stream = Stored stored_data_streambuf | Deflated "'z deflated_streambuf"

definition file_open :: "'z zlib \<Rightarrow> tez_file \<Rightarrow> error + 'z stream" where
  "file_open Z f =
     (if file_method f = 8
      then (case inflateInit2 Z of
              None \<Rightarrow> Inl ZlibInitFailed
            | Some z \<Rightarrow>
                Inr (Deflated \<lparr> garea = [], gnext = 0,
                       in_start_pos = offset f, in_cur_pos = offset f,
                       in_end_pos = offset f + compressed_size f,
                       out_cur_pos = 0, out_end_pos = uncompressed_size f,
                       desired_crc = crc32 f, crc = CRC32_new, zs = z, avail_in = [] \<rparr>))
      else if compressed_size f \<noteq> uncompressed_size f then Inl AssertionFailed
      else Inr (Stored \<lparr> garea = [], gnext = 0,
                  start_pos = offset f, cur_pos = offset f,
                  end_pos = offset f + uncompressed_size f \<rparr>))"


subsection \<open>Sequences of stream operations\<close>

text \<open>
  The \<open>std::istream\<close> that \<open>open\<close> returns hands every call to its stream buffer:
  \<open>get()\<close> is \<open>sbumpc\<close>, \<open>seekg(pos)\<close> is \<open>seekpos\<close> (a result of \<open>-1\<close> makes \<open>seekg\<close>
  fail), reading to the end is \<open>read_to_end\<close>. \<open>stored_ops\<close> runs a sequence of \<open>get\<close> and
  \<open>seekg\<close> calls on a stored stream, and \<open>stored_rest\<close> is what a read to the end then
  delivers: the bytes, and the error that ended it if one did.
\<close>

datatype stream_op = Get | Seekg int

fun stored_ops ::
  "stream_op list \<Rightarrow> stored_data_streambuf \<Rightarrow> archive \<Rightarrow> stored_data_streambuf \<times> archive" where
  "stored_ops [] sb a = (sb, a)"
| "stored_ops (Get # ops) sb a =
     (case stored_underflow_get sb a of (r, sb', a') \<Rightarrow> stored_ops ops sb' a')"
| "stored_ops (Seekg off # ops) sb a = stored_ops ops (snd (stored_seekpos off sb)) a"

definition stored_rest ::
  "stream_op list \<Rightarrow> stored_data_streambuf \<Rightarrow> archive \<Rightarrow> (byte list \<times> error option) option" where
  "stored_rest ops sb a =
     (case stored_ops ops sb a of
        (sb', a') \<Rightarrow>
          map_option (\<lambda>(bs, e, _). (bs, e))
            (read_to_end (\<lambda>sb a. Some (stored_underflow sb a)) sb' a' []))"

declare read_to_end.simps [code]

declare inflate_loop.simps [code]

declare seek_loop.simps [code]

subsection \<open>Where the records of a central directory lie\<close>

text \<open>
  The first loop of \<open>read_central_directory\<close> reads one record after the other: 46 bytes,
  the name, the extra field (skipped) and the comment. \<open>cd_record_pos f p i\<close> is where the
  record number \<open>i\<close> of the file \<open>f\<close> starts when record 0 starts at \<open>p\<close>;
  \<open>cd_filename\<close> and \<open>cd_local_header\<close> are the name a record carries and its field
  "relative offset of local header".
\<close>

definition cd_record_len :: "byte list \<Rightarrow> nat \<Rightarrow> nat" where
  "cd_record_len f p =
     CENTRAL_DIRECTORY_RECORD_LEN + unat (get_uint16 (drop (p + 28) f))
       + unat (get_uint16 (drop (p + 30) f)) + unat (get_uint16 (drop (p + 32) f))"

fun cd_record_pos :: "byte list \<Rightarrow> nat \<Rightarrow> nat \<Rightarrow> nat" where
  "cd_record_pos f p 0 = p"
| "cd_record_pos f p (Suc i) = cd_record_pos f (p + cd_record_len f p) i"

definition cd_filename :: "byte list \<Rightarrow> nat \<Rightarrow> byte list" where
  "cd_filename f p =
     take (unat (get_uint16 (drop (p + 28) f))) (drop (p + CENTRAL_DIRECTORY_RECORD_LEN) f)"

definition cd_local_header :: "byte list \<Rightarrow> nat \<Rightarrow> u32" where
  "cd_local_header f p = get_uint32 (drop (p + 42) f)"

subsection \<open>A decompressor for stored blocks\<close>

text \<open>
  For concrete runs the parameter is instantiated by a decompressor for raw deflate
  streams whose blocks are all of type 0 (stored): a header byte with \<open>BFINAL\<close> in bit 0
  and \<open>BTYPE = 00\<close> in bits 1 and 2, \<open>LEN\<close> and its complement \<open>NLEN\<close>, two bytes each,
  then \<open>LEN\<close> literal bytes. Any other block type is reported as \<open>Z_DATA_ERROR\<close>.
\<close>

datatype zstate = ZHead | ZLen "byte list" bool | ZCopy nat bool | ZDone | ZBad

fun stored_run :: "zstate \<Rightarrow> byte list \<Rightarrow> nat \<Rightarrow> zstate \<times> byte list \<times> byte list" where
  "stored_run ZHead [] n = (ZHead, [], [])"
| "stored_run ZHead (b # bs) n =
     (if b AND 6 = 0 then stored_run (ZLen [] (bit b 0)) bs n else (ZBad, b # bs, []))"
| "stored_run (ZLen hs fin) [] n = (ZLen hs fin, [], [])"
| "stored_run (ZLen hs fin) (b # bs) n =
     (if length hs < 3 then stored_run (ZLen (hs @ [b]) fin) bs n
      else if get_uint16 (hs @ [b]) \<noteq> NOT (get_uint16 (drop 2 (hs @ [b]))) then (ZBad, bs, [])
      else if get_uint16 (hs @ [b]) = 0 then stored_run (if fin then ZDone else ZHead) bs n
      else stored_run (ZCopy (unat (get_uint16 (hs @ [b]))) fin) bs n)"
| "stored_run (ZCopy k fin) [] n = (ZCopy k fin, [], [])"
| "stored_run (ZCopy k fin) (b # bs) n =
     (if n = 0 then (ZCopy k fin, b # bs, [])
      else case stored_run (if k \<le> 1 then (if fin then ZDone else ZHead) else ZCopy (k - 1) fin)
                  bs (n - 1) of
             (z, rest, written) \<Rightarrow> (z, rest, b # written))"
| "stored_run ZDone bs n = (ZDone, bs, [])"
| "stored_run ZBad bs n = (ZBad, bs, [])"

definition stored_inflate :: "zstate \<Rightarrow> byte list \<Rightarrow> nat \<Rightarrow> zret \<times> zstate \<times> nat \<times> byte list" where
  "stored_inflate z input n =
     (case stored_run z input n of
        (z', rest, written) \<Rightarrow>
          ((if z' = ZBad then Z_DATA_ERROR
            else if z' = ZDone then Z_STREAM_END
            else if length rest = length input \<and> written = [] then Z_BUF_ERROR
            else Z_OK),
           z', length input - length rest, written))"

definition stored_zlib :: "zstate zlib" where
  "stored_zlib = \<lparr> inflateInit2 = Some ZHead, inflateReset = (\<lambda>_. ZHead),
                   inflate = stored_inflate \<rparr>"

subsection \<open>Concrete archives\<close>

definition le16 :: "u16 \<Rightarrow> byte list" where
  "le16 w = [ucast w, ucast (drop_bit 8 w)]"

definition le32 :: "u32 \<Rightarrow> byte list" where
  "le32 w = [ucast w, ucast (drop_bit 8 w), ucast (drop_bit 16 w), ucast (drop_bit 24 w)]"

text \<open>A local file header, a central directory record and an end of central directory
  record, with the fields the examples vary.\<close>

definition local_file_header ::
  "u16 \<Rightarrow> u32 \<Rightarrow> u32 \<Rightarrow> u32 \<Rightarrow> byte list \<Rightarrow> byte list \<Rightarrow> byte list" where
  "local_file_header meth cksum csize usize name extra =
     le32 0x04034b50 @ le16 20 @ le16 0 @ le16 meth @ le16 0 @ le16 0 @
     le32 cksum @ le32 csize @ le32 usize @
     le16 (of_nat (length name)) @ le16 (of_nat (length extra)) @ name @ extra"

definition central_directory_record ::
  "u16 \<Rightarrow> u32 \<Rightarrow> u32 \<Rightarrow> u32 \<Rightarrow> byte list \<Rightarrow> byte list \<Rightarrow> byte list \<Rightarrow> u32 \<Rightarrow> byte list" where
  "central_directory_record meth cksum csize usize name extra cmt lho =
     le32 0x02014b50 @ le16 20 @ le16 20 @ le16 0 @ le16 meth @ le16 0 @ le16 0 @
     le32 cksum @ le32 csize @ le32 usize @
     le16 (of_nat (length name)) @ le16 (of_nat (length extra)) @ le16 (of_nat (length cmt)) @
     le16 0 @ le16 0 @ le32 0 @ le32 lho @ name @ extra @ cmt"

definition end_of_central_directory :: "u16 \<Rightarrow> u32 \<Rightarrow> u32 \<Rightarrow> byte list \<Rightarrow> byte list" where
  "end_of_central_directory n cd_size cd_offset cmt =
     le32 0x06054b50 @ le16 0 @ le16 0 @ le16 n @ le16 n @ le32 cd_size @ le32 cd_offset @
     le16 (of_nat (length cmt)) @ cmt"

definition elf_magic :: "byte list" where
  "elf_magic = [0x7f, 0x45, 0x4c, 0x46]"

text \<open>An executable of four bytes followed by a zipfile with one entry named \<open>a\<close>, whose
  comment is \<open>x\<close>; the comment of the zipfile is \<open>A\<close>.\<close>

definition exe_one_entry :: "u16 \<Rightarrow> u32 \<Rightarrow> u32 \<Rightarrow> u32 \<Rightarrow> byte list \<Rightarrow> byte list" where
  "exe_one_entry meth cksum csize usize data =
     elf_magic @
     local_file_header meth cksum csize usize [0x61] [] @ data @
     central_directory_record meth cksum csize usize [0x61] [] [0x78] 4 @
     end_of_central_directory 1 48 (of_nat (35 + length data)) [0x41]"

definition digits :: "byte list" where
  "digits = [0x30, 0x31, 0x32, 0x33, 0x34, 0x35, 0x36, 0x37, 0x38, 0x39]"

definition hello :: "byte list" where
  "hello = [0x68, 0x65, 0x6c, 0x6c, 0x6f]"

text \<open>\<open>hello\<close> as one final stored block of a raw deflate stream.\<close>

definition hello_deflated :: "byte list" where
  "hello_deflated = [0x01, 0x05, 0x00, 0xFA, 0xFF] @ hello"

text \<open>The entry holds the ten digits, stored; their CRC-32 is \<open>0xA684C7C6\<close>.\<close>

definition exe_stored :: "byte list" where
  "exe_stored = exe_one_entry 0 0xA684C7C6 10 10 digits"

text \<open>The entry holds \<open>hello\<close>, deflated; its CRC-32 is \<open>0x3610A686\<close>.\<close>

definition exe_deflated :: "byte list" where
  "exe_deflated = exe_one_entry 8 0x3610A686 10 5 hello_deflated"

text \<open>The same with a wrong checksum in the central directory.\<close>

definition exe_bad_crc :: "byte list" where
  "exe_bad_crc = exe_one_entry 8 0x3610A687 10 5 hello_deflated"

text \<open>A deflated entry of no bytes (one empty final stored block) whose declared
  checksum is 1; the CRC-32 of no bytes is 0.\<close>

definition exe_empty_deflated :: "byte list" where
  "exe_empty_deflated = exe_one_entry 8 1 5 0 [0x01, 0x00, 0x00, 0xFF, 0xFF]"

text \<open>A stored entry whose central directory record gives a compressed size of 5 and an
  uncompressed size of 6.\<close>

definition exe_size_mismatch :: "byte list" where
  "exe_size_mismatch = exe_one_entry 0 0 5 6 [0x68, 0x65, 0x6c, 0x6c, 0x6f, 0x21]"

text \<open>The end of central directory record points at the local file header instead of
  the central directory.\<close>

definition exe_bad_cd_offset :: "byte list" where
  "exe_bad_cd_offset =
     elf_magic @
     local_file_header 0 0x3610A686 5 5 [0x61] [] @ hello @
     central_directory_record 0 0x3610A686 5 5 [0x61] [] [] 4 @
     end_of_central_directory 1 47 4 []"

text \<open>Two entries \<open>a\<close> and \<open>b\<close>; with \<open>sig2\<close> the signature of the second central
  directory record and \<open>lsig2\<close> the signature of the second local file header.\<close>

definition exe_two_entries :: "byte list \<Rightarrow> byte list \<Rightarrow> u32 \<Rightarrow> u32 \<Rightarrow> byte list" where
  "exe_two_entries name1 name2 sig2 lsig2 =
     elf_magic @
     local_file_header 0 0x3610A686 5 5 name1 [] @ hello @
     le32 lsig2 @ drop 4 (local_file_header 0 0xA684C7C6 10 10 name2 []) @ digits @
     central_directory_record 0 0x3610A686 5 5 name1 [] [] 4 @
     le32 sig2 @ drop 4 (central_directory_record 0 0xA684C7C6 10 10 name2 [] [] 40) @
     end_of_central_directory 2 94 81 []"

definition exe_two :: "byte list" where
  "exe_two = exe_two_entries [0x61] [0x62] 0x02014b50 0x04034b50"

definition exe_second_record_bad :: "byte list" where
  "exe_second_record_bad = exe_two_entries [0x61] [0x62] 0x02014b51 0x04034b50"

definition exe_second_header_bad :: "byte list" where
  "exe_second_header_bad = exe_two_entries [0x61] [0x62] 0x02014b50 0x04034b51"

definition exe_duplicate_names :: "byte list" where
  "exe_duplicate_names = exe_two_entries [0x61] [0x61] 0x02014b50 0x04034b50"

text \<open>A file that is nothing but an end of central directory record: 22 bytes.\<close>

definition exe_eocd_only :: "byte list" where
  "exe_eocd_only = end_of_central_directory 0 0 0 []"

text \<open>An end of central directory record whose comment is itself such a record, with
  another central directory offset.\<close>

definition exe_nested_eocd :: "byte list" where
  "exe_nested_eocd =
     elf_magic @ end_of_central_directory 0 0 4 (end_of_central_directory 0 0 2 [])"

text \<open>An archive whose file is open, as \<open>read_eocd\<close> finds it.\<close>

definition opened :: "byte list \<Rightarrow> archive" where
  "opened f = new_archive\<lparr>fbuf := Some f\<rparr>"

text \<open>An archive whose stream stands at a central directory record, with room for one
  entry; \<open>record_bytes\<close> are the 46 bytes of the fixed part of that record.\<close>

definition at_record :: archive where
  "at_record =
     (opened (central_directory_record 0 0x3610A686 5 5 [0x61] [] [0x78] 4))\<lparr>files := [new_file]\<rparr>"

definition record_bytes :: "byte list" where
  "record_bytes = take 46 (central_directory_record 0 0x3610A686 5 5 [0x61] [] [0x78] 4)"

text \<open>An archive whose file is open and whose table has \<open>n\<close> fresh entries, as
  \<open>read_eocd\<close> leaves them for \<open>read_central_directory\<close>.\<close>

definition with_table :: "byte list \<Rightarrow> u32 \<Rightarrow> archive" where
  "with_table f n = (opened f)\<lparr>file_count := n, files := replicate (unat n) new_file\<rparr>"

text \<open>The archives that \<open>init\<close> makes of three of the executables, and the stream
  buffers that \<open>open\<close> makes of their entries.\<close>

definition stored_archive :: archive where
  "stored_archive = snd (init (Some exe_stored) new_archive)"

definition stored_stream :: stored_data_streambuf where
  "stored_stream = \<lparr> garea = [], gnext = 0, start_pos = 35, cur_pos = 35, end_pos = 45 \<rparr>"

definition deflated_archive :: archive where
  "deflated_archive = snd (init (Some exe_deflated) new_archive)"

definition deflated_stream :: "zstate deflated_streambuf" where
  "deflated_stream =
     \<lparr> garea = [], gnext = 0, in_start_pos = 35, in_cur_pos = 35, in_end_pos = 45,
       out_cur_pos = 0, out_end_pos = 5, desired_crc = 0x3610A686, crc = 0,
       zs = ZHead, avail_in = [] \<rparr>"

definition empty_deflated_stream :: "zstate deflated_streambuf" where
  "empty_deflated_stream =
     \<lparr> garea = [], gnext = 0, in_start_pos = 35, in_cur_pos = 35, in_end_pos = 40,
       out_cur_pos = 0, out_end_pos = 0, desired_crc = 1, crc = 0,
       zs = ZHead, avail_in = [] \<rparr>"

definition bad_crc_archive :: archive where
  "bad_crc_archive = snd (init (Some exe_bad_crc) new_archive)"

definition empty_deflated_archive :: archive where
  "empty_deflated_archive = snd (init (Some exe_empty_deflated) new_archive)"

section \<open>Runs on the concrete archives\<close>

text \<open>Each run is evaluated once; the theorems below take their facts from here.\<close>

lemma init_exe_stored:
  "init (Some exe_stored) new_archive =
     (Inr (),
      \<lparr> fbuf = Some exe_stored, fpos = 34, failbits = False, streampos = 0, file_count = 1,
        files = [\<lparr> offset = 35, crc32 = 0xA684C7C6, compressed_size = 10,
                   uncompressed_size = 10, filename = Some [0x61], comment = None,
                   file_method = 0 \<rparr>],
        file_map = [([0x61], 0)], archive_comment = Some [0x78] \<rparr>)"
  by code_simp

lemma init_exe_size_mismatch:
  "init (Some exe_size_mismatch) new_archive =
     (Inr (),
      \<lparr> fbuf = Some exe_size_mismatch, fpos = 34, failbits = False, streampos = 0,
        file_count = 1,
        files = [\<lparr> offset = 35, crc32 = 0, compressed_size = 5,
                   uncompressed_size = 6, filename = Some [0x61], comment = None,
                   file_method = 0 \<rparr>],
        file_map = [([0x61], 0)], archive_comment = Some [0x78] \<rparr>)"
  by code_simp

lemma init_exe_second_record_bad:
  "fst (init (Some exe_second_record_bad) new_archive) = Inl CentralDirectoryCorrupted"
  by code_simp

lemma init_exe_bad_cd_offset:
  "fst (init (Some exe_bad_cd_offset) new_archive) = Inl CentralDirectoryCorrupted"
  by code_simp

lemma init_exe_second_header_bad:
  "fst (init (Some exe_second_header_bad) new_archive) = Inl FileHeaderCorrupted"
  by code_simp

lemma init_no_zipfile:
  "fst (init (Some (elf_magic @ digits @ digits @ digits)) new_archive) = Inl NotAZipfile"
  by code_simp

text \<open>Inside the \<open>try\<close> block the failure at the second record leaves a table of two
  entries, the first of them filled in; it is the \<open>catch\<close> that discards it.\<close>

lemma init_try_partial_table:
  "(\<lambda>(r, a). (r, file_count a, length (files a), crc32 (files a ! 0)))
     (init_try (opened exe_second_record_bad))
   = (Inl CentralDirectoryCorrupted, 2, 2, 0x3610A686)"
  by code_simp

section \<open>Facts about the stream and the entry table\<close>

lemma and_1_bit: "(w :: u16) AND 1 \<noteq> 0 \<longleftrightarrow> bit w 0"
  using and_exp_eq_0_iff_not_bit [of w 0] by simp

lemma and_8_bit: "(w :: u16) AND 8 \<noteq> 0 \<longleftrightarrow> bit w 3"
  using and_exp_eq_0_iff_not_bit [of w 3] by simp

lemma stream_read_enough:
  assumes "\<not> failbits a" "fpos a + n \<le> length (file_bytes a)"
  shows "stream_read n a = (Inr (take n (drop (fpos a) (file_bytes a))), a\<lparr>fpos := fpos a + n\<rparr>)"
  using assms by (simp add: stream_read_def Let_def)

lemma stream_read_Inr_iff:
  "stream_read n a = (Inr bs, a1) \<longleftrightarrow>
     \<not> failbits a \<and> (n = 0 \<or> fpos a + n \<le> length (file_bytes a))
     \<and> bs = take n (drop (fpos a) (file_bytes a)) \<and> a1 = a\<lparr>fpos := fpos a + n\<rparr>"
proof -
  have "length (take n (drop (fpos a) (file_bytes a))) < n \<longleftrightarrow>
        \<not> (n = 0 \<or> fpos a + n \<le> length (file_bytes a))"
    by (auto simp: min_def)
  then show ?thesis
    by (auto simp: stream_read_def Let_def simp del: length_take length_drop)
qed

lemma file_bytes_upd_file [simp]: "file_bytes (upd_file i g a) = file_bytes a"
  by (simp add: file_bytes_def upd_file_def)

lemma upd_file_sel [simp]:
  "fbuf (upd_file i g a) = fbuf a" "fpos (upd_file i g a) = fpos a"
  "failbits (upd_file i g a) = failbits a" "file_count (upd_file i g a) = file_count a"
  "file_map (upd_file i g a) = file_map a" "streampos (upd_file i g a) = streampos a"
  "archive_comment (upd_file i g a) = archive_comment a"
  "length (files (upd_file i g a)) = length (files a)"
  by (simp_all add: upd_file_def)


lemma get_uint16_window:
  assumes "k + n \<le> length f" "j + 2 \<le> n"
  shows "get_uint16 (drop j (take n (drop k f))) = get_uint16 (drop (k + j) f)"
proof -
  have "(drop j (take n (drop k f))) ! i = (drop (k + j) f) ! i" if "i < 2" for i
    using assms that by (simp add: add.assoc)
  then show ?thesis by (simp add: get_uint16_def)
qed

lemma get_uint32_window:
  assumes "k + n \<le> length f" "j + 4 \<le> n"
  shows "get_uint32 (drop j (take n (drop k f))) = get_uint32 (drop (k + j) f)"
proof -
  have "(drop j (take n (drop k f))) ! i = (drop (k + j) f) ! i" if "i < 4" for i
    using assms that by (simp add: add.assoc)
  then show ?thesis by (simp add: get_uint32_def)
qed


lemma ebind_Inr:
  "ebind m k a = (Inr y, a') \<longleftrightarrow> (\<exists>x a1. m a = (Inr x, a1) \<and> k x a1 = (Inr y, a'))"
  by (auto simp: ebind_def split: prod.splits sum.splits)

lemma throw_Inr [simp]: "throw e a = (Inr y, a') \<longleftrightarrow> False"
  by (simp add: throw_def)

lemma ret_Inr [simp]: "ret x a = (Inr y, a') \<longleftrightarrow> y = x \<and> a' = a"
  by (auto simp: ret_def)

lemma modify_Inr [simp]: "modify g a = (Inr u, a') \<longleftrightarrow> a' = g a"
  by (auto simp: modify_def)


lemma seekg_Inr_iff:
  "\<not> failbits a \<Longrightarrow>
   seekg p a = (Inr u, a1) \<longleftrightarrow> fbuf a \<noteq> None \<and> a1 = a\<lparr>fpos := p\<rparr>"
  by (auto simp: seekg_def)



section \<open>The scan for the end of central directory record\<close>

lemma eocd_window:
  assumes "22 \<le> n"
  shows "eocd_max_comment_len n = min 65535 (n - 22)"
    and "eocd_seek_off n + (eocd_max_comment_len n + 22) = n"
    and "0 \<le> eocd_seek_off n" and "0 \<le> eocd_max_comment_len n"
  using assms
  by (auto simp: eocd_max_comment_len_def eocd_seek_off_def END_OF_CENTRAL_DIRECTORY_LEN_def Let_def)

lemma eocd_too_small: "n < 22 \<Longrightarrow> eocd_max_comment_len n < 0"
  by (auto simp: eocd_max_comment_len_def END_OF_CENTRAL_DIRECTORY_LEN_def Let_def)

lemma eocd_scan_found:
  assumes "c0 \<le> c" "c \<le> m"
    and "get_uint32 (drop (nat (bl - c - 22)) buf) = 0x06054b50"
    and "\<forall>c'. c0 \<le> c' \<and> c' < c \<longrightarrow> get_uint32 (drop (nat (bl - c' - 22)) buf) \<noteq> 0x06054b50"
  shows "eocd_scan buf bl m c0 = c"
  using assms
proof (induction buf bl m c0 rule: eocd_scan.induct)
  case (1 buf bl m c0)
  show ?case
  proof (cases "c0 = c")
    case True
    then show ?thesis
      using "1.prems" by (subst eocd_scan.simps) (simp add: END_OF_CENTRAL_DIRECTORY_LEN_def)
  next
    case False
    then have lt: "c0 < c" using "1.prems" by simp
    then have ns: "get_uint32 (drop (nat (bl - c0 - 22)) buf) \<noteq> 0x06054b50"
      using "1.prems" by simp
    have "eocd_scan buf bl m (c0 + 1) = c"
      using "1.prems" lt ns
      by (intro "1.IH") (auto simp: END_OF_CENTRAL_DIRECTORY_LEN_def)
    then show ?thesis
      using lt ns "1.prems"
      by (subst eocd_scan.simps) (simp add: END_OF_CENTRAL_DIRECTORY_LEN_def)
  qed
qed

lemma eocd_scan_none:
  assumes "c0 \<le> m + 1"
    and "\<forall>c'. c0 \<le> c' \<and> c' \<le> m \<longrightarrow> get_uint32 (drop (nat (bl - c' - 22)) buf) \<noteq> 0x06054b50"
  shows "eocd_scan buf bl m c0 = m + 1"
  using assms
proof (induction buf bl m c0 rule: eocd_scan.induct)
  case (1 buf bl m c0)
  show ?case
  proof (cases "c0 \<le> m")
    case True
    then have ns: "get_uint32 (drop (nat (bl - c0 - 22)) buf) \<noteq> 0x06054b50"
      using "1.prems" by simp
    have "eocd_scan buf bl m (c0 + 1) = m + 1"
      using "1.prems" True ns
      by (intro "1.IH") (auto simp: END_OF_CENTRAL_DIRECTORY_LEN_def)
    then show ?thesis
      using True ns by (subst eocd_scan.simps) (simp add: END_OF_CENTRAL_DIRECTORY_LEN_def)
  next
    case False
    then show ?thesis
      using "1.prems" by (subst eocd_scan.simps) simp
  qed
qed



text \<open>
  Claim C6 says that \<open>read_eocd\<close> reads the final \<open>min(65535, length) + 22\<close> bytes. It
  reads \<open>max_comment_len + 22\<close> bytes, and for a file shorter than 65557 bytes
  \<open>max_comment_len\<close> is the length less 22: the file of 22 bytes that is one empty end of
  central directory record is read in one read of 22 bytes and accepted, where the formula
  of the claim asks for 44 bytes.
\<close>

theorem read_eocd_length_counterexample:
  "length exe_eocd_only = 22
   \<and> fst (read_eocd (int (length exe_eocd_only)) (opened exe_eocd_only)) = Inr 0
   \<and> eocd_max_comment_len (int (length exe_eocd_only)) + END_OF_CENTRAL_DIRECTORY_LEN = 22
   \<and> min 65535 (int (length exe_eocd_only)) + 22 = 44"
  by code_simp

text \<open>
  Claim C6 as amended. Let \<open>n\<close> be the length of the file. Below 22 bytes \<open>read_eocd\<close>
  fails with the error of an executable that is too small. Otherwise it reads, in one
  read, the final \<open>min(65535, n - 22) + 22\<close> bytes: the read starts at \<open>eocd_seek_off n\<close>
  and \<open>eocd_seek_off n + (eocd_max_comment_len n + 22) = n\<close>. If for no comment length
  \<open>c\<close> from 0 to \<open>min(65535, n - 22)\<close> the four bytes at \<open>n - 22 - c\<close> are the signature, it
  fails with the error of a file that holds no zipfile. If \<open>c\<close> is the first comment
  length, counting from 0 upwards, with the signature at \<open>n - 22 - c\<close>, the record at that
  place is the one that is used: its disk fields are checked and its central directory
  offset is returned (a declared comment length beyond the end of the buffer is a read
  out of bounds).
\<close>

theorem read_eocd_scan:
  assumes op: "fbuf a = Some f" and nf: "\<not> failbits a" and n: "n = int (length f)"
  shows
    "(n < 22 \<longrightarrow> fst (read_eocd n a) = Inl ExecutableTooSmall)
   \<and> (22 \<le> n \<longrightarrow>
        eocd_max_comment_len n = min 65535 (n - 22)
      \<and> eocd_seek_off n + (eocd_max_comment_len n + END_OF_CENTRAL_DIRECTORY_LEN) = n
      \<and> ((\<forall>c. 0 \<le> c \<and> c \<le> min 65535 (n - 22) \<longrightarrow>
              get_uint32 (drop (nat (n - 22 - c)) f) \<noteq> 0x06054b50) \<longrightarrow>
            fst (read_eocd n a) = Inl NotAZipfile)
      \<and> (\<forall>c. 0 \<le> c \<and> c \<le> min 65535 (n - 22)
              \<and> get_uint32 (drop (nat (n - 22 - c)) f) = 0x06054b50
              \<and> (\<forall>c'. 0 \<le> c' \<and> c' < c \<longrightarrow>
                     get_uint32 (drop (nat (n - 22 - c')) f) \<noteq> 0x06054b50) \<longrightarrow>
            fst (read_eocd n a) =
              (let p = drop (nat (n - 22 - c)) f
               in if list_ex (\<lambda>b. b \<noteq> 0) (take 4 (drop 4 p)) then Inl MultipartNotSupported
                  else if length p < 22 + unat (get_uint16 (drop 20 p)) then Inl OutOfBoundsAccess
                  else Inr (get_uint32 (drop 16 p)))))"
proof (intro conjI impI)
  assume "n < 22"
  then show "fst (read_eocd n a) = Inl ExecutableTooSmall"
    by (simp add: read_eocd_def Let_def eocd_too_small throw_def)
next
  assume "22 \<le> n"
  then show "eocd_max_comment_len n = min 65535 (n - 22)"
    by (rule eocd_window)
next
  assume "22 \<le> n"
  then show "eocd_seek_off n + (eocd_max_comment_len n + END_OF_CENTRAL_DIRECTORY_LEN) = n"
    using eocd_window(2) [of n] by (simp add: END_OF_CENTRAL_DIRECTORY_LEN_def)
next
  assume big: "22 \<le> n"
  define m where "m = eocd_max_comment_len n"
  define so where "so = eocd_seek_off n"
  have m: "m = min 65535 (n - 22)" and sum: "so + (m + 22) = n" and so0: "0 \<le> so" and m0: "0 \<le> m"
    using eocd_window [OF big] by (simp_all add: m_def so_def)
  have seek: "seekg (nat so) a = (Inr (), a\<lparr>fpos := nat so\<rparr>)"
    using op nf by (simp add: seekg_def)
  have len: "nat so + nat (m + 22) = length f"
    using sum so0 m0 n by linarith
  have rd: "stream_read (nat (m + 22)) (a\<lparr>fpos := nat so\<rparr>)
              = (Inr (drop (nat so) f), a\<lparr>fpos := nat so + nat (m + 22)\<rparr>)"
    using stream_read_enough [of "a\<lparr>fpos := nat so\<rparr>" "nat (m + 22)"] op nf len
    by (simp add: file_bytes_def)
  have dr: "drop (nat (m + 22 - c - 22)) (drop (nat so) f) = drop (nat (n - 22 - c)) f"
    if "0 \<le> c" "c \<le> m" for c
  proof -
    have "nat (m + 22 - c - 22) + nat so = nat (n - 22 - c)"
      using that sum so0 by linarith
    then show ?thesis by (simp add: add.commute)
  qed
  have body: "fst (read_eocd n a) =
      (let comment_len = eocd_scan (drop (nat so) f) (m + 22) m 0
       in if comment_len > m then Inl NotAZipfile
          else
            let p = drop (nat (m + 22 - comment_len - 22)) (drop (nat so) f)
            in if list_ex (\<lambda>b. b \<noteq> 0) (take 4 (drop 4 p)) then Inl MultipartNotSupported
               else if length p < 22 + unat (get_uint16 (drop 20 p)) then Inl OutOfBoundsAccess
               else Inr (get_uint32 (drop 16 p)))"
    using m0 seek rd
    by (simp add: read_eocd_def Let_def ebind_def throw_def modify_def ret_def
          m_def [symmetric] so_def [symmetric] END_OF_CENTRAL_DIRECTORY_LEN_def)
  {
    assume none: "\<forall>c. 0 \<le> c \<and> c \<le> min 65535 (n - 22) \<longrightarrow>
              get_uint32 (drop (nat (n - 22 - c)) f) \<noteq> 0x06054b50"
    have "eocd_scan (drop (nat so) f) (m + 22) m 0 = m + 1"
    proof (rule eocd_scan_none)
      show "0 \<le> m + 1" using m0 by simp
      show "\<forall>c'. 0 \<le> c' \<and> c' \<le> m \<longrightarrow>
              get_uint32 (drop (nat (m + 22 - c' - 22)) (drop (nat so) f)) \<noteq> 0x06054b50"
        using none dr m by auto
    qed
    then show "fst (read_eocd n a) = Inl NotAZipfile"
      by (simp add: body)
  }
  show "\<forall>c. 0 \<le> c \<and> c \<le> min 65535 (n - 22)
              \<and> get_uint32 (drop (nat (n - 22 - c)) f) = 0x06054b50
              \<and> (\<forall>c'. 0 \<le> c' \<and> c' < c \<longrightarrow>
                     get_uint32 (drop (nat (n - 22 - c')) f) \<noteq> 0x06054b50) \<longrightarrow>
            fst (read_eocd n a) =
              (let p = drop (nat (n - 22 - c)) f
               in if list_ex (\<lambda>b. b \<noteq> 0) (take 4 (drop 4 p)) then Inl MultipartNotSupported
                  else if length p < 22 + unat (get_uint16 (drop 20 p)) then Inl OutOfBoundsAccess
                  else Inr (get_uint32 (drop 16 p)))"
  proof (intro allI impI, elim conjE)
    fix c
    assume c: "0 \<le> c" "c \<le> min 65535 (n - 22)"
      and hit: "get_uint32 (drop (nat (n - 22 - c)) f) = 0x06054b50"
      and first: "\<forall>c'. 0 \<le> c' \<and> c' < c \<longrightarrow>
                     get_uint32 (drop (nat (n - 22 - c')) f) \<noteq> 0x06054b50"
    have cm: "c \<le> m" using c m by simp
    have "eocd_scan (drop (nat so) f) (m + 22) m 0 = c"
    proof (rule eocd_scan_found)
      show "0 \<le> c" "c \<le> m" using c cm by simp_all
      show "get_uint32 (drop (nat (m + 22 - c - 22)) (drop (nat so) f)) = 0x06054b50"
        using hit dr [OF c(1) cm] by simp
      show "\<forall>c'. 0 \<le> c' \<and> c' < c \<longrightarrow>
              get_uint32 (drop (nat (m + 22 - c' - 22)) (drop (nat so) f)) \<noteq> 0x06054b50"
        using first dr cm by auto
    qed
    then show "fst (read_eocd n a) =
              (let p = drop (nat (n - 22 - c)) f
               in if list_ex (\<lambda>b. b \<noteq> 0) (take 4 (drop 4 p)) then Inl MultipartNotSupported
                  else if length p < 22 + unat (get_uint16 (drop 20 p)) then Inl OutOfBoundsAccess
                  else Inr (get_uint32 (drop 16 p)))"
      using cm dr [OF c(1) cm] by (simp add: body Let_def)
  qed
qed

lemma nested_facts:
  "fbuf (opened exe_nested_eocd) = Some exe_nested_eocd"
  "\<not> failbits (opened exe_nested_eocd)"
  "(48 :: int) = int (length exe_nested_eocd)"
  "get_uint32 (drop (nat (48 - 22 - 0)) exe_nested_eocd) = 0x06054b50"
  "(let p = drop (nat (48 - 22 - 0)) exe_nested_eocd
               in if list_ex (\<lambda>b. b \<noteq> 0) (take 4 (drop 4 p)) then Inl MultipartNotSupported
                  else if length p < 22 + unat (get_uint16 (drop 20 p)) then Inl OutOfBoundsAccess
                  else Inr (get_uint32 (drop 16 p))) = Inr 2"
  by code_simp+

theorem read_eocd_scan_witness:
  "fst (read_eocd 48 (opened exe_nested_eocd)) = Inr 2"
  using read_eocd_scan [OF nested_facts(1,2,3)] nested_facts(4,5)
  by auto


section \<open>The checks on a central directory record\<close>

text \<open>The record is taken through the checks: with each check is stated what
  \<open>read_cd_record\<close> answers when the checks before it have passed and this one fails.\<close>

lemma cd_record_rejects:
  assumes rd: "stream_read CENTRAL_DIRECTORY_RECORD_LEN a = (Inr buf, a1)"
  shows
    "(get_uint32 buf \<noteq> 0x02014b50 \<longrightarrow>
        fst (read_cd_record fileno a) = Inl CentralDirectoryCorrupted)
   \<and> (get_uint32 buf = 0x02014b50 \<longrightarrow>
       (20 < get_uint16 (drop 6 buf) \<longrightarrow>
          fst (read_cd_record fileno a) = Inl NotPkzip2Compatible)
     \<and> (\<not> 20 < get_uint16 (drop 6 buf) \<longrightarrow>
         (get_uint16 (drop 8 buf) AND 1 \<noteq> 0 \<longrightarrow>
            fst (read_cd_record fileno a) = Inl EncryptedMember)
       \<and> (get_uint16 (drop 8 buf) AND 1 = 0 \<longrightarrow>
           (get_uint16 (drop 8 buf) AND 8 \<noteq> 0 \<longrightarrow>
              fst (read_cd_record fileno a) = Inl UsesDataDescriptors)
         \<and> (get_uint16 (drop 8 buf) AND 8 = 0 \<longrightarrow>
             (get_uint16 (drop 8 buf) AND 0xF7F0 \<noteq> 0 \<longrightarrow>
                fst (read_cd_record fileno a) = Inl UnsupportedGPBFFlags)
           \<and> (get_uint16 (drop 8 buf) AND 0xF7F0 = 0 \<longrightarrow>
               (get_uint16 (drop 10 buf) \<noteq> 0 \<and> get_uint16 (drop 10 buf) \<noteq> 8 \<longrightarrow>
                  fst (read_cd_record fileno a) = Inl UnsupportedCompressionMethod)
             \<and> (\<not> (get_uint16 (drop 10 buf) \<noteq> 0 \<and> get_uint16 (drop 10 buf) \<noteq> 8) \<longrightarrow>
                 (get_uint16 (drop 34 buf) \<noteq> 0 \<longrightarrow>
                    fst (read_cd_record fileno a) = Inl MultipartNotSupported)))))))"
  using rd
  by (simp add: read_cd_record_def ebind_def throw_def modify_def Let_def
        METHOD_STORE_def METHOD_DEFLATE_def word_gt_0)

lemma cd_record_accepts:
  assumes rd: "stream_read CENTRAL_DIRECTORY_RECORD_LEN a = (Inr buf, a1)"
    and c: "get_uint32 buf = 0x02014b50" "\<not> 20 < get_uint16 (drop 6 buf)"
      "get_uint16 (drop 8 buf) AND 1 = 0" "get_uint16 (drop 8 buf) AND 8 = 0"
      "get_uint16 (drop 8 buf) AND 0xF7F0 = 0"
      "get_uint16 (drop 10 buf) = 0 \<or> get_uint16 (drop 10 buf) = 8"
      "get_uint16 (drop 34 buf) = 0"
  shows "read_cd_record fileno a =
     ebind (stream_read (unat (get_uint16 (drop 28 buf)))) (\<lambda>filename.
       ebind (\<lambda>a. seekg (fpos a + unat (get_uint16 (drop 30 buf))) a) (\<lambda>_.
       ebind (modify (\<lambda>a. a\<lparr>archive_comment :=
                Some (take (unat (get_uint16 (drop 32 buf))) (drop (fpos a) (file_bytes a))
                      @ replicate (unat (get_uint16 (drop 32 buf))
                          - length (drop (fpos a) (file_bytes a))) 0)\<rparr>)) (\<lambda>_.
       ebind (stream_read (unat (get_uint16 (drop 32 buf)))) (\<lambda>_.
       ret filename))))
     (upd_file fileno (\<lambda>e. e\<lparr>offset := get_uint32 (drop 42 buf)\<rparr>)
       (upd_file fileno (\<lambda>e. e\<lparr>crc32 := get_uint32 (drop 16 buf),
            compressed_size := get_uint32 (drop 20 buf),
            uncompressed_size := get_uint32 (drop 24 buf)\<rparr>)
       (upd_file fileno (\<lambda>e. e\<lparr>file_method := get_uint16 (drop 10 buf)\<rparr>) a1)))"
  using c(6)
proof
  assume "get_uint16 (drop 10 buf) = 0"
  then show ?thesis
    using rd c(1-5,7)
    by (simp add: read_cd_record_def ebind_def modify_def Let_def METHOD_STORE_def)
next
  assume "get_uint16 (drop 10 buf) = 8"
  then show ?thesis
    using rd c(1-5,7)
    by (simp add: read_cd_record_def ebind_def modify_def Let_def METHOD_STORE_def
          METHOD_DEFLATE_def)
qed


text \<open>
  Claim C7. The 46 bytes \<open>buf\<close> of a central directory record having been read, the
  checks are made in this order, and the first that fails decides the error: a signature
  other than \<open>0x02014b50\<close> (central directory corrupted), a version needed above 20 (not
  PKZIP 2.0 compatible), bit 0 of the flags (encrypted member), bit 3 (data descriptors),
  a bit of the mask \<open>0xF7F0\<close> (unsupported flags), a method other than 0 and 8
  (unsupported compression method), a disk number other than 0 (multipart). A record that
  passes them all is accepted: when its name, extra field and comment lie within the file,
  the name is returned and the entry has the method, checksum, sizes and local header
  offset of the record.
\<close>


theorem cd_record_checks:
  assumes rd: "stream_read CENTRAL_DIRECTORY_RECORD_LEN a = (Inr buf, a1)"
  shows
    "(get_uint32 buf \<noteq> 0x02014b50 \<longrightarrow>
        fst (read_cd_record fileno a) = Inl CentralDirectoryCorrupted)
   \<and> (get_uint32 buf = 0x02014b50 \<and> get_uint16 (drop 6 buf) > 20 \<longrightarrow>
        fst (read_cd_record fileno a) = Inl NotPkzip2Compatible)
   \<and> (get_uint32 buf = 0x02014b50 \<and> get_uint16 (drop 6 buf) \<le> 20 \<longrightarrow>
        (bit (get_uint16 (drop 8 buf)) 0 \<longrightarrow>
           fst (read_cd_record fileno a) = Inl EncryptedMember)
      \<and> (\<not> bit (get_uint16 (drop 8 buf)) 0 \<and> bit (get_uint16 (drop 8 buf)) 3 \<longrightarrow>
           fst (read_cd_record fileno a) = Inl UsesDataDescriptors)
      \<and> (\<not> bit (get_uint16 (drop 8 buf)) 0 \<and> \<not> bit (get_uint16 (drop 8 buf)) 3
           \<and> get_uint16 (drop 8 buf) AND 0xF7F0 \<noteq> 0 \<longrightarrow>
           fst (read_cd_record fileno a) = Inl UnsupportedGPBFFlags)
      \<and> (\<not> bit (get_uint16 (drop 8 buf)) 0 \<and> \<not> bit (get_uint16 (drop 8 buf)) 3
           \<and> get_uint16 (drop 8 buf) AND 0xF7F0 = 0 \<longrightarrow>
           (get_uint16 (drop 10 buf) \<noteq> 0 \<and> get_uint16 (drop 10 buf) \<noteq> 8 \<longrightarrow>
              fst (read_cd_record fileno a) = Inl UnsupportedCompressionMethod)
         \<and> (get_uint16 (drop 10 buf) = 0 \<or> get_uint16 (drop 10 buf) = 8 \<longrightarrow>
              (get_uint16 (drop 34 buf) \<noteq> 0 \<longrightarrow>
                 fst (read_cd_record fileno a) = Inl MultipartNotSupported)
            \<and> (get_uint16 (drop 34 buf) = 0
                 \<and> fpos a1 + unat (get_uint16 (drop 28 buf)) + unat (get_uint16 (drop 30 buf))
                      + unat (get_uint16 (drop 32 buf)) \<le> length (file_bytes a)
                 \<and> fileno < length (files a) \<longrightarrow>
                 fst (read_cd_record fileno a)
                   = Inr (take (unat (get_uint16 (drop 28 buf))) (drop (fpos a1) (file_bytes a)))
               \<and> file_method (files (snd (read_cd_record fileno a)) ! fileno)
                   = get_uint16 (drop 10 buf)
               \<and> crc32 (files (snd (read_cd_record fileno a)) ! fileno)
                   = get_uint32 (drop 16 buf)
               \<and> compressed_size (files (snd (read_cd_record fileno a)) ! fileno)
                   = get_uint32 (drop 20 buf)
               \<and> uncompressed_size (files (snd (read_cd_record fileno a)) ! fileno)
                   = get_uint32 (drop 24 buf)
               \<and> offset (files (snd (read_cd_record fileno a)) ! fileno)
                   = get_uint32 (drop 42 buf)))))"
proof -
  have nf: "\<not> failbits a" and a1: "a1 = a\<lparr>fpos := fpos a + CENTRAL_DIRECTORY_RECORD_LEN\<rparr>"
    and room: "fpos a + CENTRAL_DIRECTORY_RECORD_LEN \<le> length (file_bytes a)"
    using rd by (simp_all add: stream_read_Inr_iff CENTRAL_DIRECTORY_RECORD_LEN_def)
  have open_a: "fbuf a \<noteq> None"
    using room by (cases "fbuf a") (simp_all add: file_bytes_def CENTRAL_DIRECTORY_RECORD_LEN_def)
  have accepted:
    "fst (read_cd_record fileno a)
       = Inr (take (unat (get_uint16 (drop 28 buf))) (drop (fpos a1) (file_bytes a)))
     \<and> file_method (files (snd (read_cd_record fileno a)) ! fileno) = get_uint16 (drop 10 buf)
     \<and> crc32 (files (snd (read_cd_record fileno a)) ! fileno) = get_uint32 (drop 16 buf)
     \<and> compressed_size (files (snd (read_cd_record fileno a)) ! fileno)
         = get_uint32 (drop 20 buf)
     \<and> uncompressed_size (files (snd (read_cd_record fileno a)) ! fileno)
         = get_uint32 (drop 24 buf)
     \<and> offset (files (snd (read_cd_record fileno a)) ! fileno) = get_uint32 (drop 42 buf)"
    if c: "get_uint32 buf = 0x02014b50" "\<not> 20 < get_uint16 (drop 6 buf)"
      "get_uint16 (drop 8 buf) AND 1 = 0" "get_uint16 (drop 8 buf) AND 8 = 0"
      "get_uint16 (drop 8 buf) AND 0xF7F0 = 0"
      "get_uint16 (drop 10 buf) = 0 \<or> get_uint16 (drop 10 buf) = 8"
      "get_uint16 (drop 34 buf) = 0"
    and fits: "fpos a1 + unat (get_uint16 (drop 28 buf)) + unat (get_uint16 (drop 30 buf))
                 + unat (get_uint16 (drop 32 buf)) \<le> length (file_bytes a)"
    and idx: "fileno < length (files a)"
  proof -
    show ?thesis
      unfolding cd_record_accepts [OF rd c]
      using fits idx nf open_a
      by (simp add: ebind_def modify_def ret_def a1 stream_read_enough seekg_def
            upd_file_def file_bytes_def)
  qed
  show ?thesis
    using cd_record_rejects [OF rd, of fileno] accepted
    by (simp add: and_1_bit [symmetric] and_8_bit [symmetric] not_less)
qed


lemma at_record_read:
  "stream_read CENTRAL_DIRECTORY_RECORD_LEN at_record = (Inr record_bytes, at_record\<lparr>fpos := 46\<rparr>)"
  by code_simp

lemma record_bytes_fields:
  "get_uint32 record_bytes = 0x02014b50" "get_uint16 (drop 6 record_bytes) \<le> 20"
  "\<not> bit (get_uint16 (drop 8 record_bytes)) 0" "\<not> bit (get_uint16 (drop 8 record_bytes)) 3"
  "get_uint16 (drop 8 record_bytes) AND 0xF7F0 = 0" "get_uint16 (drop 10 record_bytes) = 0"
  "get_uint16 (drop 34 record_bytes) = 0"
  "fpos (at_record\<lparr>fpos := 46\<rparr>) + unat (get_uint16 (drop 28 record_bytes))
     + unat (get_uint16 (drop 30 record_bytes)) + unat (get_uint16 (drop 32 record_bytes))
     \<le> length (file_bytes at_record)"
  "0 < length (files at_record)"
  "get_uint32 (drop 42 record_bytes) = 4"
  "take (unat (get_uint16 (drop 28 record_bytes)))
     (drop (fpos (at_record\<lparr>fpos := 46\<rparr>)) (file_bytes at_record)) = [0x61]"
  by code_simp+

theorem cd_record_checks_witness:
  "fst (read_cd_record 0 at_record) = Inr [0x61]
   \<and> offset (files (snd (read_cd_record 0 at_record)) ! 0) = 4"
  using cd_record_checks [OF at_record_read, of 0] record_bytes_fields
  by simp



section \<open>The central directory as a whole\<close>

text \<open>What a successful run of each loop of \<open>read_central_directory\<close> has done, in
  terms of the bytes of the file.\<close>

lemma read_cd_record_Inr:
  assumes ok: "read_cd_record i a = (Inr nm, a')" and op: "fbuf a = Some f"
  shows "fbuf a' = Some f \<and> \<not> failbits a' \<and> \<not> failbits a
         \<and> fpos a' = fpos a + cd_record_len f (fpos a)
         \<and> nm = cd_filename f (fpos a)
         \<and> file_count a' = file_count a \<and> file_map a' = file_map a
         \<and> streampos a' = streampos a
         \<and> length (files a') = length (files a)
         \<and> (\<forall>j. j \<noteq> i \<longrightarrow> files a' ! j = files a ! j)
         \<and> (i < length (files a) \<longrightarrow> offset (files a' ! i) = cd_local_header f (fpos a))"
proof -
  have fb: "file_bytes a = f" using op by (simp add: file_bytes_def)
  obtain buf a1 where rd: "stream_read CENTRAL_DIRECTORY_RECORD_LEN a = (Inr buf, a1)"
    using ok unfolding read_cd_record_def ebind_Inr by blast
  have nf: "\<not> failbits a" and bound: "fpos a + 46 \<le> length f"
    and buf: "buf = take 46 (drop (fpos a) f)" and a1: "a1 = a\<lparr>fpos := fpos a + 46\<rparr>"
    using rd fb by (simp_all add: stream_read_Inr_iff CENTRAL_DIRECTORY_RECORD_LEN_def)
  have f28: "get_uint16 (drop 28 buf) = get_uint16 (drop (fpos a + 28) f)"
    unfolding buf using bound by (rule get_uint16_window) simp
  have f30: "get_uint16 (drop 30 buf) = get_uint16 (drop (fpos a + 30) f)"
    unfolding buf using bound by (rule get_uint16_window) simp
  have f32: "get_uint16 (drop 32 buf) = get_uint16 (drop (fpos a + 32) f)"
    unfolding buf using bound by (rule get_uint16_window) simp
  have f42: "get_uint32 (drop 42 buf) = get_uint32 (drop (fpos a + 42) f)"
    unfolding buf using bound by (rule get_uint32_window) simp
  have fst_ok: "fst (read_cd_record i a) = Inr nm" using ok by simp
  note v = cd_record_rejects [OF rd, of i]
  have c1: "get_uint32 buf = 0x02014b50"
    using v fst_ok by (cases "get_uint32 buf = 0x02014b50") simp_all
  have c2: "\<not> 20 < get_uint16 (drop 6 buf)"
    using v fst_ok c1 by (cases "20 < get_uint16 (drop 6 buf)") simp_all
  have c3: "get_uint16 (drop 8 buf) AND 1 = 0"
    using v fst_ok c1 c2 by (cases "get_uint16 (drop 8 buf) AND 1 = 0") simp_all
  have c4: "get_uint16 (drop 8 buf) AND 8 = 0"
    using v fst_ok c1 c2 c3 by (cases "get_uint16 (drop 8 buf) AND 8 = 0") simp_all
  have c5: "get_uint16 (drop 8 buf) AND 0xF7F0 = 0"
    using v fst_ok c1 c2 c3 c4 by (cases "get_uint16 (drop 8 buf) AND 0xF7F0 = 0") simp_all
  have c6: "get_uint16 (drop 10 buf) = 0 \<or> get_uint16 (drop 10 buf) = 8"
    using v fst_ok c1 c2 c3 c4 c5
    by (cases "get_uint16 (drop 10 buf) = 0 \<or> get_uint16 (drop 10 buf) = 8") simp_all
  have c7: "get_uint16 (drop 34 buf) = 0"
    using v fst_ok c1 c2 c3 c4 c5 c6 by (cases "get_uint16 (drop 34 buf) = 0") simp_all
  show ?thesis
    using ok [unfolded cd_record_accepts [OF rd c1 c2 c3 c4 c5 c6 c7]] op fb nf
    by (simp add: ebind_Inr stream_read_Inr_iff seekg_Inr_iff a1 upd_file_def file_bytes_def
          add.assoc cd_record_len_def cd_filename_def cd_local_header_def
          CENTRAL_DIRECTORY_RECORD_LEN_def f28 f30 f32 f42)
qed

lemma cd_loop_Inr:
  assumes "cd_loop [k..<n] names a = (Inr names', a')"
    and "fbuf a = Some f" and "length names = n" and "n \<le> length (files a)"
  shows "fbuf a' = Some f \<and> file_count a' = file_count a \<and> file_map a' = file_map a
         \<and> streampos a' = streampos a
         \<and> length (files a') = length (files a) \<and> length names' = n
         \<and> (k < n \<longrightarrow> \<not> failbits a')
         \<and> (\<forall>j. j < k \<or> n \<le> j \<longrightarrow> files a' ! j = files a ! j)
         \<and> (\<forall>j. j < k \<longrightarrow> names' ! j = names ! j)
         \<and> (\<forall>i. k \<le> i \<and> i < n \<longrightarrow>
               names' ! i = cd_filename f (cd_record_pos f (fpos a) (i - k))
             \<and> offset (files a' ! i) = cd_local_header f (cd_record_pos f (fpos a) (i - k)))"
  using assms
proof (induction "n - k" arbitrary: k names a)
  case 0
  then have nk: "n \<le> k" and e: "[k..<n] = []" by simp_all
  have "names' = names" "a' = a" using "0.prems"(1) unfolding e by (simp_all add: ret_def)
  with nk "0.prems" show ?case by auto
next
  case (Suc d)
  then have kn: "k < n" by simp
  then have upt: "[k..<n] = k # [Suc k..<n]" by (rule upt_conv_Cons)
  from Suc.prems(1) obtain nm a1 where
    rec: "read_cd_record k a = (Inr nm, a1)" and
    rest: "cd_loop [Suc k..<n] (names[k := nm]) a1 = (Inr names', a')"
    unfolding upt by (auto simp: ebind_Inr)
  note r = read_cd_record_Inr [OF rec Suc.prems(2)]
  have d: "d = n - Suc k" using Suc.hyps(2) by simp
  have ih: "fbuf a' = Some f \<and> file_count a' = file_count a1 \<and> file_map a' = file_map a1
         \<and> streampos a' = streampos a1
         \<and> length (files a') = length (files a1) \<and> length names' = n
         \<and> (Suc k < n \<longrightarrow> \<not> failbits a')
         \<and> (\<forall>j. j < Suc k \<or> n \<le> j \<longrightarrow> files a' ! j = files a1 ! j)
         \<and> (\<forall>j. j < Suc k \<longrightarrow> names' ! j = (names[k := nm]) ! j)
         \<and> (\<forall>i. Suc k \<le> i \<and> i < n \<longrightarrow>
               names' ! i = cd_filename f (cd_record_pos f (fpos a1) (i - Suc k))
             \<and> offset (files a' ! i) = cd_local_header f (cd_record_pos f (fpos a1) (i - Suc k)))"
    using Suc.hyps(1) [OF d rest] r Suc.prems(3,4) by simp
  have nf: "\<not> failbits a'"
  proof (cases "Suc k < n")
    case True
    then show ?thesis using ih by simp
  next
    case False
    then have e: "[Suc k..<n] = []" by simp
    have "a' = a1" using rest unfolding e by (simp add: ret_def)
    then show ?thesis using r by simp
  qed
  have pos: "cd_record_pos f (fpos a1) (i - Suc k) = cd_record_pos f (fpos a) (i - k)"
    if "Suc k \<le> i" for i
  proof -
    have "i - k = Suc (i - Suc k)" using that by simp
    then show ?thesis using r by simp
  qed
  have at_k: "names' ! k = cd_filename f (fpos a)
              \<and> offset (files a' ! k) = cd_local_header f (fpos a)"
    using ih r kn Suc.prems(3,4) by simp
  have later: "names' ! i = cd_filename f (cd_record_pos f (fpos a) (i - k))
             \<and> offset (files a' ! i) = cd_local_header f (cd_record_pos f (fpos a) (i - k))"
    if "k \<le> i" "i < n" for i
  proof (cases "i = k")
    case True
    then show ?thesis using at_k by simp
  next
    case False
    then have "Suc k \<le> i" using that by simp
    then show ?thesis using ih that pos by simp
  qed
  have frame: "files a' ! j = files a ! j" if "j < k \<or> n \<le> j" for j
    using that ih r kn by auto
  have names_frame: "names' ! j = names ! j" if "j < k" for j
    using that ih by simp
  show ?case
    using ih r nf later frame names_frame by simp
qed

lemma map_loop_frame [simp]:
  "files (map_loop is names a) = files a" "fbuf (map_loop is names a) = fbuf a"
  "fpos (map_loop is names a) = fpos a" "failbits (map_loop is names a) = failbits a"
  "file_count (map_loop is names a) = file_count a"
  "streampos (map_loop is names a) = streampos a"
  by (induction "is" arbitrary: a) simp_all

lemma map_of_emplace:
  "map_of (emplace k v m) x = (case map_of m x of Some w \<Rightarrow> Some w
                               | None \<Rightarrow> if x = k then Some v else None)"
  by (auto simp: emplace_def map_add_def split: option.splits)

lemma map_of_map_loop:
  "map_of (file_map (map_loop is names a)) x =
     (case map_of (file_map a) x of
        Some w \<Rightarrow> Some w
      | None \<Rightarrow> map_option of_nat (List.find (\<lambda>i. names ! i = x) is))"
proof (induction "is" arbitrary: a)
  case Nil
  then show ?case by (simp split: option.splits)
next
  case (Cons i "is")
  show ?case
    by (simp add: Cons.IH map_of_emplace split: option.splits)
qed

lemma find_upt_first:
  assumes "i < n" "names ! i = x"
  shows "\<exists>j. List.find (\<lambda>i. names ! i = x) [0..<n] = Some j \<and> j \<le> i \<and> names ! j = x
             \<and> (\<forall>k<j. names ! k \<noteq> x)"
proof -
  have "List.find (\<lambda>i. names ! i = x) [0..<n] \<noteq> None"
    using assms by (auto simp: find_None_iff)
  then obtain j where j: "List.find (\<lambda>i. names ! i = x) [0..<n] = Some j" by auto
  then have p: "j < n" "names ! j = x" "\<forall>k<j. names ! k \<noteq> x"
    by (auto simp: find_Some_iff)
  have "j \<le> i"
  proof (rule ccontr)
    assume "\<not> j \<le> i"
    then have "i < j" by simp
    then show False using p assms by auto
  qed
  then show ?thesis using j p by blast
qed

lemma name_loop_frame [simp]:
  "fbuf (name_loop m a) = fbuf a" "fpos (name_loop m a) = fpos a"
  "failbits (name_loop m a) = failbits a" "file_count (name_loop m a) = file_count a"
  "file_map (name_loop m a) = file_map a" "streampos (name_loop m a) = streampos a"
  "length (files (name_loop m a)) = length (files a)"
  by (induction m a rule: name_loop.induct) simp_all

lemma upd_file_filename_fields:
  "offset (files (upd_file j (\<lambda>e. e\<lparr>filename := x\<rparr>) a) ! i) = offset (files a ! i)
   \<and> crc32 (files (upd_file j (\<lambda>e. e\<lparr>filename := x\<rparr>) a) ! i) = crc32 (files a ! i)
   \<and> compressed_size (files (upd_file j (\<lambda>e. e\<lparr>filename := x\<rparr>) a) ! i)
       = compressed_size (files a ! i)
   \<and> uncompressed_size (files (upd_file j (\<lambda>e. e\<lparr>filename := x\<rparr>) a) ! i)
       = uncompressed_size (files a ! i)
   \<and> file_method (files (upd_file j (\<lambda>e. e\<lparr>filename := x\<rparr>) a) ! i)
       = file_method (files a ! i)"
proof (cases "j < length (files a)")
  case True
  then show ?thesis by (cases "i = j") (simp_all add: upd_file_def)
next
  case False
  then show ?thesis by (simp add: upd_file_def list_update_beyond)
qed

lemma name_loop_fields [simp]:
  "offset (files (name_loop m a) ! i) = offset (files a ! i)"
  "crc32 (files (name_loop m a) ! i) = crc32 (files a ! i)"
  "compressed_size (files (name_loop m a) ! i) = compressed_size (files a ! i)"
  "uncompressed_size (files (name_loop m a) ! i) = uncompressed_size (files a ! i)"
  "file_method (files (name_loop m a) ! i) = file_method (files a ! i)"
  by (induction m a rule: name_loop.induct) (simp_all add: upd_file_filename_fields)

lemma read_header_Inr:
  assumes ok: "read_header this off a = (Inr u, a')" and op: "fbuf a = Some f"
    and nf: "\<not> failbits a"
  shows "unat off + 30 \<le> length f \<and> get_uint32 (drop (unat off) f) = 0x04034b50
         \<and> a' = upd_file this (\<lambda>e. e\<lparr>offset := off + 30
                    + ucast (get_uint16 (drop (unat off + 26) f))
                    + ucast (get_uint16 (drop (unat off + 28) f))\<rparr>) (a\<lparr>fpos := unat off + 30\<rparr>)"
proof -
  have fb: "file_bytes a = f" using op by (simp add: file_bytes_def)
  have fb': "file_bytes (a\<lparr>fpos := unat off\<rparr>) = f" using op by (simp add: file_bytes_def)
  obtain buf a2 where rd: "stream_read LOCAL_FILE_HEADER_LEN (a\<lparr>fpos := unat off\<rparr>) = (Inr buf, a2)"
    and body: "(if get_uint32 buf \<noteq> 0x04034b50 then throw FileHeaderCorrupted
       else
       let filename_length = get_uint16 (drop 26 buf);
           extra_length = get_uint16 (drop 28 buf)
       in modify (upd_file this (\<lambda>f. f\<lparr>offset :=
            off + of_nat LOCAL_FILE_HEADER_LEN + ucast filename_length + ucast extra_length\<rparr>))) a2
         = (Inr u, a')"
    using ok op nf unfolding read_header_def
    by (auto simp: ebind_Inr seekg_Inr_iff)
  have bound: "unat off + 30 \<le> length f" and buf: "buf = take 30 (drop (unat off) f)"
    and a2: "a2 = a\<lparr>fpos := unat off + 30\<rparr>"
    using rd fb' by (simp_all add: stream_read_Inr_iff LOCAL_FILE_HEADER_LEN_def)
  have w0: "get_uint32 buf = get_uint32 (drop (unat off) f)"
    using get_uint32_window [of "unat off" 30 f 0] bound by (simp add: buf)
  have w26: "get_uint16 (drop 26 buf) = get_uint16 (drop (unat off + 26) f)"
    unfolding buf using bound by (rule get_uint16_window) simp
  have w28: "get_uint16 (drop 28 buf) = get_uint16 (drop (unat off + 28) f)"
    unfolding buf using bound by (rule get_uint16_window) simp
  have sig: "get_uint32 buf = 0x04034b50"
    using body by (cases "get_uint32 buf = 0x04034b50") simp_all
  show ?thesis
    using body sig bound
    by (simp add: Let_def a2 w0 [symmetric] w26 [symmetric] w28 [symmetric]
          LOCAL_FILE_HEADER_LEN_def)
qed

lemma read_header_result:
  assumes op: "fbuf a = Some f" and nf: "\<not> failbits a" and bound: "unat off + 30 \<le> length f"
  shows "read_header this off a =
     (if get_uint32 (drop (unat off) f) \<noteq> 0x04034b50
      then (Inl FileHeaderCorrupted, a\<lparr>fpos := unat off + 30\<rparr>)
      else (Inr (), upd_file this (\<lambda>e. e\<lparr>offset := off + 30
                    + ucast (get_uint16 (drop (unat off + 26) f))
                    + ucast (get_uint16 (drop (unat off + 28) f))\<rparr>) (a\<lparr>fpos := unat off + 30\<rparr>)))"
proof -
  have rd: "stream_read LOCAL_FILE_HEADER_LEN (a\<lparr>fpos := unat off\<rparr>)
            = (Inr (take 30 (drop (unat off) f)), a\<lparr>fpos := unat off + 30\<rparr>)"
    using stream_read_enough [of "a\<lparr>fpos := unat off\<rparr>" 30] op nf bound
    by (simp add: file_bytes_def LOCAL_FILE_HEADER_LEN_def)
  have w0: "get_uint32 (take 30 (drop (unat off) f)) = get_uint32 (drop (unat off) f)"
    using get_uint32_window [of "unat off" 30 f 0] bound by simp
  have w26: "get_uint16 (drop 26 (take 30 (drop (unat off) f))) = get_uint16 (drop (unat off + 26) f)"
    using bound by (rule get_uint16_window) simp
  have w28: "get_uint16 (drop 28 (take 30 (drop (unat off) f))) = get_uint16 (drop (unat off + 28) f)"
    using bound by (rule get_uint16_window) simp
  show ?thesis
    using op nf rd
    by (simp add: read_header_def ebind_def seekg_def throw_def modify_def Let_def
          w0 w26 w28 LOCAL_FILE_HEADER_LEN_def)
qed

lemma header_loop_Inr:
  assumes "header_loop is a = (Inr u, a')" and "fbuf a = Some f" and "\<not> failbits a"
    and "distinct is" and "\<forall>i\<in>set is. i < length (files a)"
  shows "fbuf a' = Some f \<and> file_count a' = file_count a \<and> file_map a' = file_map a
         \<and> length (files a') = length (files a)
         \<and> (\<forall>i. i \<notin> set is \<longrightarrow> files a' ! i = files a ! i)
         \<and> (\<forall>i\<in>set is.
               unat (offset (files a ! i)) + 30 \<le> length f
             \<and> get_uint32 (drop (unat (offset (files a ! i))) f) = 0x04034b50
             \<and> files a' ! i = (files a ! i)\<lparr>offset := offset (files a ! i) + 30
                  + ucast (get_uint16 (drop (unat (offset (files a ! i)) + 26) f))
                  + ucast (get_uint16 (drop (unat (offset (files a ! i)) + 28) f))\<rparr>)"
  using assms
proof (induction "is" arbitrary: a)
  case Nil
  then show ?case by (simp add: ret_def)
next
  case (Cons i "is")
  from Cons.prems(1) obtain a1 where
    hd: "read_header i (offset (files a ! i)) a = (Inr (), a1)" and
    tl: "header_loop is a1 = (Inr u, a')"
    by (auto simp: ebind_Inr)
  note r = read_header_Inr [OF hd Cons.prems(2,3)]
  have a1: "a1 = upd_file i (\<lambda>e. e\<lparr>offset := offset (files a ! i) + 30
                  + ucast (get_uint16 (drop (unat (offset (files a ! i)) + 26) f))
                  + ucast (get_uint16 (drop (unat (offset (files a ! i)) + 28) f))\<rparr>)
                (a\<lparr>fpos := unat (offset (files a ! i)) + 30\<rparr>)"
    using r by blast
  have il: "i < length (files a)" and ni: "i \<notin> set is" and dis: "distinct is"
    using Cons.prems(4,5) by simp_all
  have p1: "fbuf a1 = Some f" "\<not> failbits a1" "length (files a1) = length (files a)"
    "file_count a1 = file_count a" "file_map a1 = file_map a"
    using Cons.prems(2,3) by (simp_all add: a1)
  have same: "files a1 ! j = files a ! j" if "j \<noteq> i" for j
    using that by (simp add: a1 upd_file_def)
  have at_i: "files a1 ! i = (files a ! i)\<lparr>offset := offset (files a ! i) + 30
                  + ucast (get_uint16 (drop (unat (offset (files a ! i)) + 26) f))
                  + ucast (get_uint16 (drop (unat (offset (files a ! i)) + 28) f))\<rparr>"
    using il by (simp add: a1 upd_file_def)
  have bnd: "\<forall>j\<in>set is. j < length (files a1)"
    using Cons.prems(5) p1 by simp
  note ih = Cons.IH [OF tl p1(1) p1(2) dis bnd]
  have in_is: "unat (offset (files a ! j)) + 30 \<le> length f
             \<and> get_uint32 (drop (unat (offset (files a ! j))) f) = 0x04034b50
             \<and> files a' ! j = (files a ! j)\<lparr>offset := offset (files a ! j) + 30
                  + ucast (get_uint16 (drop (unat (offset (files a ! j)) + 26) f))
                  + ucast (get_uint16 (drop (unat (offset (files a ! j)) + 28) f))\<rparr>"
    if "j \<in> set is" for j
  proof -
    have "j \<noteq> i" using that ni by auto
    then have e: "files a1 ! j = files a ! j" by (rule same)
    have "unat (offset (files a1 ! j)) + 30 \<le> length f
             \<and> get_uint32 (drop (unat (offset (files a1 ! j))) f) = 0x04034b50
             \<and> files a' ! j = (files a1 ! j)\<lparr>offset := offset (files a1 ! j) + 30
                  + ucast (get_uint16 (drop (unat (offset (files a1 ! j)) + 26) f))
                  + ucast (get_uint16 (drop (unat (offset (files a1 ! j)) + 28) f))\<rparr>"
      using ih that by blast
    then show ?thesis unfolding e .
  qed
  have this_i: "files a' ! i = files a1 ! i" using ih ni by simp
  have others: "files a' ! j = files a ! j" if "j \<notin> set (i # is)" for j
    using that ih same by simp
  show ?case
    using ih p1 r in_is this_i at_i others by auto
qed

lemma read_central_directory_Inr:
  assumes ok: "read_central_directory cd a = (Inr u, a')"
    and op: "fbuf a = Some f" and nf: "\<not> failbits a"
    and len: "length (files a) = unat (file_count a)"
  shows "\<exists>names a1.
           cd_loop [0..<unat (file_count a)] (replicate (unat (file_count a)) [])
             (a\<lparr>fpos := unat cd\<rparr>) = (Inr names, a1)
         \<and> file_count a1 = file_count a
         \<and> header_loop [0..<unat (file_count a)]
             (name_loop (file_map (map_loop [0..<unat (file_count a)] names a1))
                (map_loop [0..<unat (file_count a)] names a1)) = (Inr u, a')"
proof -
  from ok op nf obtain names a1 where
    cl: "cd_loop [0..<unat (file_count a)] (replicate (unat (file_count a)) [])
           (a\<lparr>fpos := unat cd\<rparr>) = (Inr names, a1)" and
    hl: "header_loop [0..<unat (file_count (name_loop (file_map (map_loop [0..<unat (file_count a1)] names a1))
                (map_loop [0..<unat (file_count a1)] names a1)))]
             (name_loop (file_map (map_loop [0..<unat (file_count a1)] names a1))
                (map_loop [0..<unat (file_count a1)] names a1)) = (Inr u, a')"
    unfolding read_central_directory_def
    by (auto simp: ebind_Inr seekg_Inr_iff)
  have "file_count a1 = file_count a"
    using cd_loop_Inr [OF cl, of f] op len by simp
  then show ?thesis using cl hl by simp
qed

lemma read_central_directory_entries:
  assumes ok: "read_central_directory cd a = (Inr u, a')"
    and op: "fbuf a = Some f" and nf: "\<not> failbits a"
    and len: "length (files a) = unat (file_count a)"
  shows "file_count a' = file_count a \<and> length (files a') = unat (file_count a)
     \<and> (\<forall>x. map_of (file_map a') x =
           (case map_of (file_map a) x of
              Some w \<Rightarrow> Some w
            | None \<Rightarrow> map_option of_nat
                (List.find (\<lambda>i. cd_filename f (cd_record_pos f (unat cd) i) = x)
                   [0..<unat (file_count a)])))
     \<and> (\<forall>i<unat (file_count a).
           unat (cd_local_header f (cd_record_pos f (unat cd) i)) + 30 \<le> length f
         \<and> get_uint32 (drop (unat (cd_local_header f (cd_record_pos f (unat cd) i))) f)
             = 0x04034b50
         \<and> offset (files a' ! i) =
             cd_local_header f (cd_record_pos f (unat cd) i) + 30
             + ucast (get_uint16
                 (drop (unat (cd_local_header f (cd_record_pos f (unat cd) i)) + 26) f))
             + ucast (get_uint16
                 (drop (unat (cd_local_header f (cd_record_pos f (unat cd) i)) + 28) f)))"
proof -
  define n where "n = unat (file_count a)"
  obtain names a1 where
    cl: "cd_loop [0..<n] (replicate n []) (a\<lparr>fpos := unat cd\<rparr>) = (Inr names, a1)" and
    hl: "header_loop [0..<n] (name_loop (file_map (map_loop [0..<n] names a1))
           (map_loop [0..<n] names a1)) = (Inr u, a')"
    using read_central_directory_Inr [OF ok op nf len] unfolding n_def by blast
  have c: "fbuf a1 = Some f \<and> file_count a1 = file_count a \<and> file_map a1 = file_map a
         \<and> length (files a1) = length (files a) \<and> length names = n
         \<and> (0 < n \<longrightarrow> \<not> failbits a1)
         \<and> (\<forall>i. 0 \<le> i \<and> i < n \<longrightarrow>
               names ! i = cd_filename f (cd_record_pos f (unat cd) (i - 0))
             \<and> offset (files a1 ! i) = cd_local_header f (cd_record_pos f (unat cd) (i - 0)))"
    using cd_loop_Inr [OF cl, of f] op len by (simp add: n_def)
  have nf1: "\<not> failbits a1"
  proof (cases "0 < n")
    case True
    then show ?thesis using c by simp
  next
    case False
    then have "a1 = a\<lparr>fpos := unat cd\<rparr>" using cl by (simp add: ret_def)
    then show ?thesis using nf by simp
  qed
  define a2 where "a2 = name_loop (file_map (map_loop [0..<n] names a1)) (map_loop [0..<n] names a1)"
  have p2: "fbuf a2 = Some f" "\<not> failbits a2" "length (files a2) = n"
    "file_count a2 = file_count a" "file_map a2 = file_map (map_loop [0..<n] names a1)"
    using c nf1 len by (simp_all add: a2_def n_def)
  have off2: "offset (files a2 ! i) = offset (files a1 ! i)" for i
    by (simp add: a2_def)
  have h: "fbuf a' = Some f \<and> file_count a' = file_count a2 \<and> file_map a' = file_map a2
         \<and> length (files a') = length (files a2)
         \<and> (\<forall>i\<in>set [0..<n].
               unat (offset (files a2 ! i)) + 30 \<le> length f
             \<and> get_uint32 (drop (unat (offset (files a2 ! i))) f) = 0x04034b50
             \<and> files a' ! i = (files a2 ! i)\<lparr>offset := offset (files a2 ! i) + 30
                  + ucast (get_uint16 (drop (unat (offset (files a2 ! i)) + 26) f))
                  + ucast (get_uint16 (drop (unat (offset (files a2 ! i)) + 28) f))\<rparr>)"
    using header_loop_Inr [OF hl [folded a2_def] p2(1) p2(2)] p2(3) by simp
  have names: "names ! i = cd_filename f (cd_record_pos f (unat cd) i)" if "i < n" for i
    using c that by simp
  have find_eq: "List.find (\<lambda>i. names ! i = x) [0..<n]
               = List.find (\<lambda>i. cd_filename f (cd_record_pos f (unat cd) i) = x) [0..<n]" for x
    by (rule find_cong) (simp_all add: names)
  have m: "map_of (file_map a') x =
           (case map_of (file_map a) x of
              Some w \<Rightarrow> Some w
            | None \<Rightarrow> map_option of_nat
                (List.find (\<lambda>i. cd_filename f (cd_record_pos f (unat cd) i) = x) [0..<n]))" for x
  proof -
    have "map_of (file_map a') x =
           (case map_of (file_map a) x of
              Some w \<Rightarrow> Some w
            | None \<Rightarrow> map_option of_nat (List.find (\<lambda>i. names ! i = x) [0..<n]))"
      using h p2 c by (simp add: map_of_map_loop)
    then show ?thesis unfolding find_eq .
  qed
  have e: "unat (cd_local_header f (cd_record_pos f (unat cd) i)) + 30 \<le> length f
         \<and> get_uint32 (drop (unat (cd_local_header f (cd_record_pos f (unat cd) i))) f)
             = 0x04034b50
         \<and> offset (files a' ! i) =
             cd_local_header f (cd_record_pos f (unat cd) i) + 30
             + ucast (get_uint16
                 (drop (unat (cd_local_header f (cd_record_pos f (unat cd) i)) + 26) f))
             + ucast (get_uint16
                 (drop (unat (cd_local_header f (cd_record_pos f (unat cd) i)) + 28) f))"
    if "i < n" for i
  proof -
    have o: "offset (files a2 ! i) = cd_local_header f (cd_record_pos f (unat cd) i)"
      using c that off2 by simp
    have "unat (offset (files a2 ! i)) + 30 \<le> length f
             \<and> get_uint32 (drop (unat (offset (files a2 ! i))) f) = 0x04034b50
             \<and> files a' ! i = (files a2 ! i)\<lparr>offset := offset (files a2 ! i) + 30
                  + ucast (get_uint16 (drop (unat (offset (files a2 ! i)) + 26) f))
                  + ucast (get_uint16 (drop (unat (offset (files a2 ! i)) + 28) f))\<rparr>"
      using h that by simp
    then show ?thesis unfolding o by simp
  qed
  show ?thesis
    using h p2 m e unfolding n_def [symmetric] by simp
qed

lemma find_upt_least:
  assumes "i < n" "P i"
  shows "\<exists>j. List.find P [0..<n] = Some j \<and> j \<le> i \<and> P j \<and> (\<forall>k<j. \<not> P k)"
proof -
  have "List.find P [0..<n] \<noteq> None"
    using assms by (auto simp: find_None_iff)
  then obtain j where j: "List.find P [0..<n] = Some j" by auto
  then have p: "j < n" "P j" "\<forall>k<j. \<not> P k"
    by (auto simp: find_Some_iff)
  have "j \<le> i"
  proof (rule ccontr)
    assume "\<not> j \<le> i"
    then have "i < j" by simp
    then show False using p assms by auto
  qed
  then show ?thesis using j p by blast
qed

lemma find_upt_Some:
  assumes "List.find P [0..<n] = Some j"
  shows "j < n \<and> P j \<and> (\<forall>k<j. \<not> P k)"
  using assms by (auto simp: find_Some_iff)

lemma unat_index: "j < unat (c :: u32) \<Longrightarrow> unat (of_nat j :: u32) = j"
proof -
  assume "j < unat c"
  moreover have "unat c < 2 ^ LENGTH(32)" by (rule unsigned_less)
  ultimately have "j < 2 ^ LENGTH(32)" by (rule less_trans)
  then show ?thesis by (simp add: unat_of_nat)
qed

lemma unat_ucast_16_32: "unat (ucast (w :: u16) :: u32) = unat w"
proof -
  have "unat w < 2 ^ LENGTH(16)" by (rule unsigned_less)
  then have "unat w < 2 ^ 32" by simp
  then show ?thesis by (simp add: unsigned_ucast_eq take_bit_nat_eq_self)
qed

lemma unat_data_offset:
  fixes h :: u32 and fl el :: u16
  assumes "unat h + 30 + unat fl + unat el < 2 ^ 32"
  shows "unat (h + 30 + ucast fl + ucast el) = unat h + 30 + unat fl + unat el"
proof -
  have a: "unat (h + 30) = unat h + 30"
    using assms by (simp add: unat_word_ariths)
  have b: "unat (h + 30 + ucast fl) = unat h + 30 + unat fl"
    using assms a by (simp add: unat_word_ariths unat_ucast_16_32)
  show ?thesis
    using assms b by (simp add: unat_word_ariths unat_ucast_16_32)
qed

lemma index_less_uint: "i < unat (c :: u32) \<Longrightarrow> int i < uint c"
  by (metis unat_eq_nat_uint zless_nat_eq_int_zless)


lemma with_table_facts:
  "fbuf (with_table f n) = Some f" "\<not> failbits (with_table f n)"
  "length (files (with_table f n)) = unat (file_count (with_table f n))"
  "file_map (with_table f n) = []" "file_count (with_table f n) = n"
  by (simp_all add: with_table_def opened_def new_archive_def)


section \<open>The data offset of an entry\<close>

text \<open>
  Claim C8. Let \<open>read_central_directory\<close> succeed on the file \<open>f\<close>, and let \<open>h\<close> be the
  local header offset that the central directory record of the entry \<open>i\<close> carries. Then
  the four bytes at \<open>h\<close> are the signature \<open>0x04034b50\<close>, and the offset of the entry,
  which is where \<open>open\<close> starts either kind of stream, is \<open>h\<close> plus 30 plus the name length
  and the extra field length read at \<open>h + 26\<close> and \<open>h + 28\<close> of the local header (in the
  32-bit arithmetic of the code, and as numbers whenever the sum fits 32 bits).
  \<open>read_header\<close> answers that the file header is corrupted whenever the 30 bytes of a
  header can be read and do not start with the signature. The offset is resolved once,
  by the last loop of \<open>read_central_directory\<close>; \<open>file_open\<close> is a function of the entry
  alone and reads no header.
\<close>

theorem local_header_resolution:
  assumes ok: "read_central_directory cd_offset a = (Inr (), a')"
    and op: "fbuf a = Some f" and nf: "\<not> failbits a"
    and len: "length (files a) = unat (file_count a)"
    and i: "i < unat (file_count a)"
  shows
    "(let h = cd_local_header f (cd_record_pos f (unat cd_offset) i);
          filename_length = get_uint16 (drop (unat h + 26) f);
          extra_length = get_uint16 (drop (unat h + 28) f);
          e = files a' ! i
      in get_uint32 (drop (unat h) f) = 0x04034b50
       \<and> offset e = h + 30 + ucast filename_length + ucast extra_length
       \<and> (unat h + 30 + unat filename_length + unat extra_length < 2 ^ 32 \<longrightarrow>
            unat (offset e) = unat h + 30 + unat filename_length + unat extra_length)
       \<and> (\<forall>s. file_open Z e = Inr (Stored s) \<longrightarrow>
            start_pos s = offset e \<and> cur_pos s = offset e)
       \<and> (\<forall>s. file_open Z e = Inr (Deflated s) \<longrightarrow>
            in_start_pos s = offset e \<and> in_cur_pos s = offset e))
   \<and> (\<forall>this off b. fbuf b = Some f \<and> \<not> failbits b \<and> unat off + 30 \<le> length f
          \<and> get_uint32 (drop (unat off) f) \<noteq> 0x04034b50 \<longrightarrow>
          fst (read_header this off b) = Inl FileHeaderCorrupted)"
proof -
  note e = read_central_directory_entries [OF ok op nf len]
  have opn: "(\<forall>s. file_open Z x = Inr (Stored s) \<longrightarrow>
                start_pos s = offset x \<and> cur_pos s = offset x)
           \<and> (\<forall>s. file_open Z x = Inr (Deflated s) \<longrightarrow>
                in_start_pos s = offset x \<and> in_cur_pos s = offset x)" for x
    by (auto simp: file_open_def split: if_splits option.splits)
  have hdr: "fst (read_header this off b) = Inl FileHeaderCorrupted"
    if "fbuf b = Some f" "\<not> failbits b" "unat off + 30 \<le> length f"
       "get_uint32 (drop (unat off) f) \<noteq> 0x04034b50" for this off b
    using that by (simp add: read_header_result)
  show ?thesis
    using e i opn hdr unat_data_offset
    by (simp add: Let_def)
qed


lemma rcd_exe_two:
  "fst (read_central_directory 81 (with_table exe_two 2)) = Inr ()"
  by code_simp

lemma exe_two_second_header:
  "cd_local_header exe_two (cd_record_pos exe_two 81 1) = 40"
  "get_uint16 (drop 66 exe_two) = 1" "get_uint16 (drop 68 exe_two) = 0"
  "35 + 30 \<le> length exe_two" "get_uint32 (drop 35 exe_two) \<noteq> 0x04034b50"
  by code_simp+

theorem local_header_resolution_witness:
  "offset (files (snd (read_central_directory 81 (with_table exe_two 2))) ! 1) = 71
   \<and> fst (read_header 0 35 (with_table exe_two 2)) = Inl FileHeaderCorrupted"
proof -
  have one: "(1::nat) < unat (file_count (with_table exe_two 2))"
    by (simp add: with_table_facts)
  note t = local_header_resolution
    [OF surjective_pairing [of "read_central_directory 81 (with_table exe_two 2)",
          unfolded rcd_exe_two]
        with_table_facts(1,2,3) one, where Z = stored_zlib]
  have "offset (files (snd (read_central_directory 81 (with_table exe_two 2))) ! 1) = 71"
    using t exe_two_second_header(1,2,3) by (simp add: Let_def)
  moreover have "fst (read_header 0 35 (with_table exe_two 2)) = Inl FileHeaderCorrupted"
    using t with_table_facts(1,2) [of exe_two 2] exe_two_second_header(4,5) by simp
  ultimately show ?thesis by simp
qed


section \<open>Entries that share a name\<close>

text \<open>
  Claim C10. Let \<open>read_central_directory\<close> succeed, starting with an empty name map as
  \<open>init\<close> does, and let \<open>name j\<close> be the file name of the central directory record
  \<open>j\<close>. Looking up the name of the entry \<open>i\<close>, with \<open>find\<close> or with \<open>operator[]\<close>, gives
  the first entry that has this name: an index \<open>k \<le> i\<close> with \<open>name k = name i\<close> and no
  entry before \<open>k\<close> of that name. The entry \<open>i\<close> itself is still there by position. A
  lookup that returns \<open>i\<close> was a lookup of the name of \<open>i\<close>, and \<open>i\<close> is then the first
  entry of that name: a later duplicate is never what a lookup returns.
\<close>

theorem duplicate_names_first_entry_wins:
  assumes ok: "read_central_directory cd_offset a = (Inr (), a')"
    and op: "fbuf a = Some f" and nf: "\<not> failbits a"
    and len: "length (files a) = unat (file_count a)"
    and em: "file_map a = []"
    and i: "i < unat (file_count a)"
  shows
    "(let name = (\<lambda>j. cd_filename f (cd_record_pos f (unat cd_offset) j));
          k = find_file a' (name i)
      in k \<le> i \<and> name k = name i \<and> (\<forall>j<k. name j \<noteq> name i)
       \<and> index_by_name a' (name i) = Inr (files a' ! k)
       \<and> at a' (int i) = Inr (files a' ! i) \<and> i < length (files a')
       \<and> (\<forall>x. find_file a' x = i \<longrightarrow> x = name i \<and> (\<forall>j<i. name j \<noteq> name i)))"
proof -
  define n where "n = unat (file_count a)"
  define name where "name = (\<lambda>j. cd_filename f (cd_record_pos f (unat cd_offset) j))"
  note e = read_central_directory_entries [OF ok op nf len]
  have fc: "file_count a' = file_count a" and lf: "length (files a') = n"
    using e by (simp_all add: n_def)
  have m: "map_of (file_map a') x = map_option of_nat (List.find (\<lambda>j. name j = x) [0..<n])" for x
    using e em by (simp add: n_def name_def)
  obtain k where k: "List.find (\<lambda>j. name j = name i) [0..<n] = Some k" "k \<le> i"
      "name k = name i" "\<forall>j<k. name j \<noteq> name i"
    using find_upt_least [of i n "\<lambda>j. name j = name i"] i by (auto simp: n_def)
  have kn: "k < unat (file_count a)" using k(2) i by simp
  have uk: "unat (of_nat k :: u32) = k" using kn by (rule unat_index)
  have ff: "find_file a' (name i) = k"
    by (simp add: find_file_def m k(1) uk)
  have ix: "index_by_name a' (name i) = Inr (files a' ! k)"
    by (simp add: index_by_name_def m k(1) uk)
  have "int i < uint (file_count a')"
    using i fc by (simp add: index_less_uint)
  then have at_i: "at a' (int i) = Inr (files a' ! i)"
    by (simp add: at_def)
  have only_first: "x = name i \<and> (\<forall>j<i. name j \<noteq> name i)" if "find_file a' x = i" for x
  proof (cases "List.find (\<lambda>j. name j = x) [0..<n]")
    case None
    then have "find_file a' x = n" by (simp add: find_file_def m fc n_def)
    then show ?thesis using that i by (simp add: n_def)
  next
    case (Some j)
    note p = find_upt_Some [OF Some]
    have "j < unat (file_count a)" using p by (simp add: n_def)
    then have "unat (of_nat j :: u32) = j" by (rule unat_index)
    then have "find_file a' x = j" by (simp add: find_file_def m Some)
    then have "j = i" using that by simp
    then show ?thesis using p by auto
  qed
  show ?thesis
    unfolding Let_def name_def [symmetric] ff
    using k ix at_i lf i only_first by (simp add: n_def) blast
qed

lemma rcd_exe_duplicate_names:
  "fst (read_central_directory 81 (with_table exe_duplicate_names 2)) = Inr ()"
  by code_simp

lemma exe_duplicate_names_names:
  "cd_filename exe_duplicate_names (cd_record_pos exe_duplicate_names 81 0) = [0x61]"
  "cd_filename exe_duplicate_names (cd_record_pos exe_duplicate_names 81 1) = [0x61]"
  by code_simp+

theorem duplicate_names_first_entry_wins_witness:
  "find_file (snd (read_central_directory 81 (with_table exe_duplicate_names 2))) [0x61] = 0
   \<and> at (snd (read_central_directory 81 (with_table exe_duplicate_names 2))) 1
       = Inr (files (snd (read_central_directory 81 (with_table exe_duplicate_names 2))) ! 1)"
proof -
  have one: "(1::nat) < unat (file_count (with_table exe_duplicate_names 2))"
    by (simp add: with_table_facts)
  note t = duplicate_names_first_entry_wins
    [OF surjective_pairing [of "read_central_directory 81 (with_table exe_duplicate_names 2)",
          unfolded rcd_exe_duplicate_names]
        with_table_facts(1,2,3,4) one]
  define k where
    "k = find_file (snd (read_central_directory 81 (with_table exe_duplicate_names 2))) [0x61]"
  have k: "k \<le> 1"
    "\<forall>j<k. cd_filename exe_duplicate_names (cd_record_pos exe_duplicate_names 81 j) \<noteq> [0x61]"
    using t exe_duplicate_names_names by (simp_all add: Let_def k_def)
  have "k = 0"
  proof (rule ccontr)
    assume "k \<noteq> 0"
    then have "0 < k" by simp
    then show False using k(2) exe_duplicate_names_names(1) by blast
  qed
  moreover have "at (snd (read_central_directory 81 (with_table exe_duplicate_names 2))) 1
       = Inr (files (snd (read_central_directory 81 (with_table exe_duplicate_names 2))) ! 1)"
    using t by (simp add: Let_def)
  ultimately show ?thesis by (simp add: k_def)
qed

section \<open>A failed initialisation leaves the archive empty\<close>

text \<open>
  Claim C3. When \<open>init\<close> fails, for whatever reason and wherever (no executable, the
  scan for the end of central directory record, the central directory after some records
  were read, a local file header), the archive it leaves is the purged one: \<open>size()\<close> is
  0, \<open>empty()\<close> is true, the entry table and the name map are gone, and so are the
  comment and the open file.
\<close>

theorem init_failure_leaves_archive_empty:
  assumes "init exe a0 = (Inl e, a')"
  shows "size_archive a' = 0 \<and> empty a' \<and> files a' = [] \<and> file_map a' = []
         \<and> archive_comment a' = None \<and> fbuf a' = None"
  using assms
  by (auto simp: init_def Let_def purge_def size_archive_def empty_def
           split: option.splits prod.splits sum.splits)

theorem init_failure_leaves_archive_empty_witness:
  "size_archive (snd (init (Some exe_second_record_bad) new_archive)) = 0
   \<and> size_archive (snd (init (Some exe_bad_cd_offset) new_archive)) = 0
   \<and> files (snd (init (Some exe_second_header_bad) new_archive)) = []
   \<and> file_map (snd (init (Some (elf_magic @ digits @ digits @ digits)) new_archive)) = []"
  using
    init_failure_leaves_archive_empty
      [OF surjective_pairing [of "init (Some exe_second_record_bad) new_archive",
            unfolded init_exe_second_record_bad]]
    init_failure_leaves_archive_empty
      [OF surjective_pairing [of "init (Some exe_bad_cd_offset) new_archive",
            unfolded init_exe_bad_cd_offset]]
    init_failure_leaves_archive_empty
      [OF surjective_pairing [of "init (Some exe_second_header_bad) new_archive",
            unfolded init_exe_second_header_bad]]
    init_failure_leaves_archive_empty
      [OF surjective_pairing [of "init (Some (elf_magic @ digits @ digits @ digits)) new_archive",
            unfolded init_no_zipfile]]
  by blast

section \<open>The comments after initialisation\<close>

text \<open>
  Claim C5 says that after a successful \<open>init\<close> the comment of the archive is the one
  of the end of central directory record and the comment of each entry is the one of its
  central directory record. In \<open>read_central_directory\<close> the comment of each record is
  assigned to \<open>comment\<close>, which in a member function of \<open>archive\<close> is the comment of the
  archive; \<open>file.comment\<close> is never assigned. For \<open>exe_stored\<close>, whose zipfile has the
  comment \<open>A\<close> and whose entry has the comment \<open>x\<close>, the archive reports \<open>x\<close> and the
  entry reports the empty string.
\<close>

theorem entry_comment_lands_in_archive_comment:
  "exe_stored =
     elf_magic @ local_file_header 0 0xA684C7C6 10 10 [0x61] [] @ digits @
     central_directory_record 0 0xA684C7C6 10 10 [0x61] [] [0x78] 4 @
     end_of_central_directory 1 48 45 [0x41]
   \<and> fst (init (Some exe_stored) new_archive) = Inr ()
   \<and> fst (get_comment (snd (init (Some exe_stored) new_archive))) = [0x78]
   \<and> fst (file_get_comment (files (snd (init (Some exe_stored) new_archive)) ! 0)) = []"
proof -
  have "exe_stored =
     elf_magic @ local_file_header 0 0xA684C7C6 10 10 [0x61] [] @ digits @
     central_directory_record 0 0xA684C7C6 10 10 [0x61] [] [0x78] 4 @
     end_of_central_directory 1 48 45 [0x41]"
    by (simp add: exe_stored_def exe_one_entry_def digits_def)
  then show ?thesis
    by (simp only: init_exe_stored) (simp add: get_comment_def file_get_comment_def)
qed

section \<open>Stored entries and their two sizes\<close>

text \<open>
  Claim C9 says that after a successful \<open>init\<close> a stored entry has equal compressed and
  uncompressed sizes, so that the assertion in \<open>open\<close> cannot fail.
  \<open>read_central_directory\<close> copies both sizes from the record and compares them nowhere:
  \<open>exe_size_mismatch\<close> initialises, its entry is stored with sizes 5 and 6, and \<open>open\<close>
  fails its assertion.
\<close>

theorem stored_entry_sizes_are_not_checked:
  "fst (init (Some exe_size_mismatch) new_archive) = Inr ()
   \<and> file_method (files (snd (init (Some exe_size_mismatch) new_archive)) ! 0) = METHOD_STORE
   \<and> compressed_size (files (snd (init (Some exe_size_mismatch) new_archive)) ! 0) = 5
   \<and> uncompressed_size (files (snd (init (Some exe_size_mismatch) new_archive)) ! 0) = 6
   \<and> file_open stored_zlib (files (snd (init (Some exe_size_mismatch) new_archive)) ! 0)
       = Inl AssertionFailed"
  by (simp add: init_exe_size_mismatch file_open_def METHOD_STORE_def)

section \<open>The archives of the stream fixtures\<close>

lemma init_exe_deflated:
  "init (Some exe_deflated) new_archive =
     (Inr (),
      \<lparr> fbuf = Some exe_deflated, fpos = 34, failbits = False, streampos = 0, file_count = 1,
        files = [\<lparr> offset = 35, crc32 = 0x3610A686, compressed_size = 10,
                   uncompressed_size = 5, filename = Some [0x61], comment = None,
                   file_method = 8 \<rparr>],
        file_map = [([0x61], 0)], archive_comment = Some [0x78] \<rparr>)"
  by code_simp

lemma init_exe_bad_crc:
  "init (Some exe_bad_crc) new_archive =
     (Inr (),
      \<lparr> fbuf = Some exe_bad_crc, fpos = 34, failbits = False, streampos = 0, file_count = 1,
        files = [\<lparr> offset = 35, crc32 = 0x3610A687, compressed_size = 10,
                   uncompressed_size = 5, filename = Some [0x61], comment = None,
                   file_method = 8 \<rparr>],
        file_map = [([0x61], 0)], archive_comment = Some [0x78] \<rparr>)"
  by code_simp

lemma init_exe_empty_deflated:
  "init (Some exe_empty_deflated) new_archive =
     (Inr (),
      \<lparr> fbuf = Some exe_empty_deflated, fpos = 34, failbits = False, streampos = 0,
        file_count = 1,
        files = [\<lparr> offset = 35, crc32 = 1, compressed_size = 5,
                   uncompressed_size = 0, filename = Some [0x61], comment = None,
                   file_method = 8 \<rparr>],
        file_map = [([0x61], 0)], archive_comment = Some [0x78] \<rparr>)"
  by code_simp

lemma stored_archive_code [code]:
  "stored_archive =
      \<lparr> fbuf = Some exe_stored, fpos = 34, failbits = False, streampos = 0, file_count = 1,
        files = [\<lparr> offset = 35, crc32 = 0xA684C7C6, compressed_size = 10,
                   uncompressed_size = 10, filename = Some [0x61], comment = None,
                   file_method = 0 \<rparr>],
        file_map = [([0x61], 0)], archive_comment = Some [0x78] \<rparr>"
  by (simp add: stored_archive_def init_exe_stored)

lemma deflated_archive_code [code]:
  "deflated_archive =
      \<lparr> fbuf = Some exe_deflated, fpos = 34, failbits = False, streampos = 0, file_count = 1,
        files = [\<lparr> offset = 35, crc32 = 0x3610A686, compressed_size = 10,
                   uncompressed_size = 5, filename = Some [0x61], comment = None,
                   file_method = 8 \<rparr>],
        file_map = [([0x61], 0)], archive_comment = Some [0x78] \<rparr>"
  by (simp add: deflated_archive_def init_exe_deflated)

lemma bad_crc_archive_code [code]:
  "bad_crc_archive =
      \<lparr> fbuf = Some exe_bad_crc, fpos = 34, failbits = False, streampos = 0, file_count = 1,
        files = [\<lparr> offset = 35, crc32 = 0x3610A687, compressed_size = 10,
                   uncompressed_size = 5, filename = Some [0x61], comment = None,
                   file_method = 8 \<rparr>],
        file_map = [([0x61], 0)], archive_comment = Some [0x78] \<rparr>"
  by (simp add: bad_crc_archive_def init_exe_bad_crc)

lemma empty_deflated_archive_code [code]:
  "empty_deflated_archive =
      \<lparr> fbuf = Some exe_empty_deflated, fpos = 34, failbits = False, streampos = 0,
        file_count = 1,
        files = [\<lparr> offset = 35, crc32 = 1, compressed_size = 5,
                   uncompressed_size = 0, filename = Some [0x61], comment = None,
                   file_method = 8 \<rparr>],
        file_map = [([0x61], 0)], archive_comment = Some [0x78] \<rparr>"
  by (simp add: empty_deflated_archive_def init_exe_empty_deflated)

lemma file_open_stored: "file_open stored_zlib (files stored_archive ! 0) = Inr (Stored stored_stream)"
  by code_simp

lemma file_open_deflated:
  "file_open stored_zlib (files deflated_archive ! 0) = Inr (Deflated deflated_stream)"
  by code_simp

lemma file_open_bad_crc:
  "file_open stored_zlib (files bad_crc_archive ! 0)
     = Inr (Deflated (deflated_stream\<lparr>desired_crc := 0x3610A687\<rparr>))"
  by code_simp

lemma file_open_empty_deflated:
  "file_open stored_zlib (files empty_deflated_archive ! 0) = Inr (Deflated empty_deflated_stream)"
  by code_simp

section \<open>Reading a stream to its end\<close>

text \<open>The bytes left in the get area are delivered before \<open>underflow\<close> is called again.\<close>

lemma read_to_end_drain:
  "0 \<le> gnext sb \<Longrightarrow> gnext sb \<le> int (length (garea sb)) \<Longrightarrow>
   read_to_end uf sb a acc
     = read_to_end uf (sb\<lparr>gnext := int (length (garea sb))\<rparr>) a
         (acc @ drop (nat (gnext sb)) (garea sb))"
proof (induction "length (garea sb) - nat (gnext sb)" arbitrary: sb acc)
  case 0
  then have e: "gnext sb = int (length (garea sb))" by simp
  have u: "sb\<lparr>gnext := int (length (garea sb))\<rparr> = sb"
    by (subst e [symmetric]) simp
  show ?case unfolding u using e by simp
next
  case (Suc k)
  define n where "n = nat (gnext sb)"
  have n: "n < length (garea sb)" "gnext sb = int n"
    using Suc.hyps(2) Suc.prems by (simp_all add: n_def)
  have step: "sbumpc uf sb a = Some (Inr (Some (garea sb ! n)), sb\<lparr>gnext := gnext sb + 1\<rparr>, a)"
    using n by (simp add: sbumpc_def)
  have dr: "drop n (garea sb) = garea sb ! n # drop (Suc n) (garea sb)"
    using n(1) by (simp add: Cons_nth_drop_Suc)
  have "read_to_end uf sb a acc
          = read_to_end uf (sb\<lparr>gnext := gnext sb + 1\<rparr>) a (acc @ [garea sb ! n])"
    by (subst read_to_end.simps) (simp add: step)
  also have "\<dots> = read_to_end uf (sb\<lparr>gnext := int (length (garea sb))\<rparr>) a
         ((acc @ [garea sb ! n]) @ drop (Suc n) (garea sb))"
    using Suc.hyps(1) [of "sb\<lparr>gnext := gnext sb + 1\<rparr>" "acc @ [garea sb ! n]"] Suc.hyps(2) n
    by (simp add: nat_add_distrib)
  finally show ?case using dr by (simp add: n_def)
qed

text \<open>What a read to the end delivers starts with what was delivered before.\<close>

lemma read_to_end_prefix:
  assumes "read_to_end uf sb a acc = Some (bs, e, sb', a')"
  shows "take (length acc) bs = acc"
proof -
  have "take (length acc) (fst y) = acc" if "read_to_end uf sb a acc = Some y" for y
  proof (induction rule: read_to_end.raw_induct [OF _ that])
    case (1 rte uf sb a acc y)
    note IH = "1"(1) and body = "1"(2)
    obtain r1 sb1 a1 where s: "sbumpc uf sb a = Some (r1, sb1, a1)"
      using body by (auto split: Option.bind_splits)
    show ?case
    proof (cases r1)
      case (Inl e)
      then show ?thesis using body s by auto
    next
      case (Inr oc)
      show ?thesis
      proof (cases oc)
        case None
        then show ?thesis using body s Inr by auto
      next
        case (Some c)
        then have "rte uf sb1 a1 (acc @ [c]) = Some y" using body s Inr by simp
        from IH [OF this] have "take (Suc (length acc)) (fst y) = acc @ [c]" by simp
        then have "take (length acc) (take (Suc (length acc)) (fst y))
                     = take (length acc) (acc @ [c])"
          by simp
        then show ?thesis by (simp add: min_def)
      qed
    qed
  qed
  from this [OF assms] show ?thesis by simp
qed

section \<open>Seeking in a stored stream\<close>

text \<open>
  Claim C1 says that seeking an open stream to an offset \<open>o\<close> of the entry, after any
  reads and seeks, and then reading to the end yields the bytes of the entry from \<open>o\<close> on,
  and that seeking to 0 restarts the stream. \<open>stored_data_streambuf::seekpos\<close> assigns
  \<open>cur_pos\<close> and leaves the get area as it is (\<open>deflated_streambuf::seekpos\<close> calls
  \<open>setg\<close>, this one does not), so the stream goes on delivering the bytes that
  \<open>underflow\<close> had buffered before the seek: whatever the offset, a read to the end after
  the seek starts with the unread rest of the buffer.
\<close>

theorem stored_seek_keeps_get_area:
  assumes "0 \<le> gnext sb" and "gnext sb \<le> int (length (garea sb))"
    and "read_to_end (\<lambda>sb a. Some (stored_underflow sb a)) (snd (stored_seekpos off sb)) a []
           = Some (bs, e, sb', a')"
  shows "take (length (garea sb) - nat (gnext sb)) bs = drop (nat (gnext sb)) (garea sb)"
proof -
  let ?sb = "snd (stored_seekpos off sb)"
  have g: "garea ?sb = garea sb" "gnext ?sb = gnext sb"
    by (simp_all add: stored_seekpos_def Let_def)
  have "read_to_end (\<lambda>sb a. Some (stored_underflow sb a))
          (?sb\<lparr>gnext := int (length (garea ?sb))\<rparr>) a ([] @ drop (nat (gnext ?sb)) (garea ?sb))
        = Some (bs, e, sb', a')"
    using read_to_end_drain [of ?sb "\<lambda>sb a. Some (stored_underflow sb a)" a "[]"] assms g
    by simp
  from read_to_end_prefix [OF this] show ?thesis by (simp add: g)
qed

text \<open>
  The entry of \<open>exe_stored\<close> holds the ten digits. A fresh stream delivers them. After
  one \<open>get()\<close> the stream has the ten digits in its buffer and has delivered \<open>0\<close>;
  after \<open>seekg(5)\<close> it delivers \<open>123456789\<close> and then \<open>56789\<close>, not \<open>56789\<close>.
\<close>

theorem stored_seek_keeps_get_area_witness:
  "stored_rest [] stored_stream stored_archive = Some (digits, None)
   \<and> fst (stored_ops [Get] stored_stream stored_archive)
       = \<lparr> garea = digits, gnext = 1, start_pos = 35, cur_pos = 45, end_pos = 45 \<rparr>
   \<and> read_to_end (\<lambda>sb a. Some (stored_underflow sb a))
         (snd (stored_seekpos 5 (fst (stored_ops [Get] stored_stream stored_archive))))
         (snd (stored_ops [Get] stored_stream stored_archive)) []
       = Some (drop 1 digits @ drop 5 digits, None,
               \<lparr> garea = drop 5 digits, gnext = 5, start_pos = 35, cur_pos = 45, end_pos = 45 \<rparr>,
               stored_archive\<lparr>fpos := 45, streampos := 45\<rparr>)
   \<and> take 9 (drop 1 digits @ drop 5 digits) = drop 1 digits"
proof -
  have fresh: "stored_rest [] stored_stream stored_archive = Some (digits, None)"
    by code_simp
  have ops: "fst (stored_ops [Get] stored_stream stored_archive)
       = \<lparr> garea = digits, gnext = 1, start_pos = 35, cur_pos = 45, end_pos = 45 \<rparr>"
    by code_simp
  have rd: "read_to_end (\<lambda>sb a. Some (stored_underflow sb a))
         (snd (stored_seekpos 5 (fst (stored_ops [Get] stored_stream stored_archive))))
         (snd (stored_ops [Get] stored_stream stored_archive)) []
       = Some (drop 1 digits @ drop 5 digits, None,
               \<lparr> garea = drop 5 digits, gnext = 5, start_pos = 35, cur_pos = 45, end_pos = 45 \<rparr>,
               stored_archive\<lparr>fpos := 45, streampos := 45\<rparr>)"
    by code_simp
  have g0: "0 \<le> gnext (fst (stored_ops [Get] stored_stream stored_archive))"
    and g1: "gnext (fst (stored_ops [Get] stored_stream stored_archive))
              \<le> int (length (garea (fst (stored_ops [Get] stored_stream stored_archive))))"
    unfolding ops by (simp_all add: digits_def)
  note w = stored_seek_keeps_get_area [OF g0 g1 rd, unfolded ops]
  have tk: "take 9 (drop 1 digits @ drop 5 digits) = drop 1 digits"
    using w by (simp add: digits_def)
  show ?thesis by (intro conjI fresh ops rd tk)
qed

text \<open>The same stream after \<open>get()\<close> and \<open>seekg(0)\<close>, and after \<open>get()\<close> and
  \<open>seekg(100)\<close>: the nine buffered digits come first, then the entry from the start,
  or nothing more.\<close>

lemma stored_seek_to_start_or_past_end:
  "stored_rest [Get, Seekg 0] stored_stream stored_archive = Some (drop 1 digits @ digits, None)
   \<and> stored_rest [Get, Seekg 100] stored_stream stored_archive = Some (drop 1 digits, None)
   \<and> stored_rest [Seekg 100] stored_stream stored_archive = Some ([], None)"
  by code_simp

section \<open>The checksum of a deflated entry\<close>

lemma zlib_crc32_append: "zlib_crc32 (zlib_crc32 c xs) ys = zlib_crc32 c (xs @ ys)"
  by (simp add: zlib_crc32_def)

lemma zlib_crc32_Nil [simp]: "zlib_crc32 c [] = c"
  by (simp add: zlib_crc32_def)

lemma inflate_step_frame:
  assumes "inflate_step Z sb a = (r, sb', a')"
  shows "crc sb' = crc sb \<and> out_cur_pos sb' = out_cur_pos sb \<and> out_end_pos sb' = out_end_pos sb
         \<and> desired_crc sb' = desired_crc sb \<and> garea sb' = garea sb \<and> gnext sb' = gnext sb
         \<and> in_start_pos sb' = in_start_pos sb \<and> in_end_pos sb' = in_end_pos sb"
  using assms
  by (auto simp: inflate_step_def Let_def split: if_splits prod.splits sum.splits)

lemma inflate_loop_frame:
  assumes "inflate_loop Z sb a = Some (r, sb', a')"
  shows "crc sb' = crc sb \<and> out_cur_pos sb' = out_cur_pos sb \<and> out_end_pos sb' = out_end_pos sb
         \<and> desired_crc sb' = desired_crc sb \<and> garea sb' = garea sb \<and> gnext sb' = gnext sb
         \<and> in_start_pos sb' = in_start_pos sb \<and> in_end_pos sb' = in_end_pos sb
         \<and> (\<forall>w. r = Inr w \<longrightarrow> w \<noteq> [])"
proof -
  have "crc (fst (snd y)) = crc sb \<and> out_cur_pos (fst (snd y)) = out_cur_pos sb
         \<and> out_end_pos (fst (snd y)) = out_end_pos sb
         \<and> desired_crc (fst (snd y)) = desired_crc sb \<and> garea (fst (snd y)) = garea sb
         \<and> gnext (fst (snd y)) = gnext sb
         \<and> in_start_pos (fst (snd y)) = in_start_pos sb \<and> in_end_pos (fst (snd y)) = in_end_pos sb
         \<and> (\<forall>w. fst y = Inr w \<longrightarrow> w \<noteq> [])"
    if "inflate_loop Z sb a = Some y" for y
  proof (induction rule: inflate_loop.raw_induct [OF _ that])
    case (1 loop Z sb a y)
    note body = "1"(2) and IH = "1"(1)
    obtain r1 sb1 a1 where st: "inflate_step Z sb a = (r1, sb1, a1)"
      by (cases "inflate_step Z sb a") auto
    note f = inflate_step_frame [OF st]
    show ?case
    proof (cases r1)
      case (Inl e)
      then show ?thesis using body st f by auto
    next
      case (Inr w)
      show ?thesis
      proof (cases "w = []")
        case True
        then have "loop Z sb1 a1 = Some y" using body st Inr by simp
        from IH [OF this] show ?thesis using f by simp
      next
        case False
        then show ?thesis using body st Inr f by auto
      qed
    qed
  qed
  from this [OF assms] show ?thesis by simp
qed


text \<open>What one call of \<open>underflow\<close> does to a deflated stream.\<close>

lemma deflated_underflow_cases:
  assumes uf: "deflated_underflow Z sb a = Some (r, sb', a')"
  shows "out_end_pos sb' = out_end_pos sb \<and> desired_crc sb' = desired_crc sb
     \<and> (case r of
           Inr None \<Rightarrow> sb' = sb \<and> out_cur_pos sb = out_end_pos sb
         | Inr (Some c) \<Rightarrow>
             out_cur_pos sb \<noteq> out_end_pos sb \<and> garea sb' \<noteq> [] \<and> gnext sb' = 0
             \<and> c = garea sb' ! 0
             \<and> crc sb' = zlib_crc32 (crc sb) (garea sb')
             \<and> out_cur_pos sb' = out_cur_pos sb + of_nat (length (garea sb'))
             \<and> (out_cur_pos sb' = out_end_pos sb \<longrightarrow> crc sb' = desired_crc sb)
         | Inl e \<Rightarrow>
             out_cur_pos sb \<noteq> out_end_pos sb
             \<and> (if garea sb' = garea sb \<and> gnext sb' = gnext sb \<and> crc sb' = crc sb
                     \<and> out_cur_pos sb' = out_cur_pos sb
                 then True
                 else e = ChecksumMismatch \<and> gnext sb' = 0
                      \<and> crc sb' = zlib_crc32 (crc sb) (garea sb')
                      \<and> out_cur_pos sb' = out_cur_pos sb + of_nat (length (garea sb'))
                      \<and> out_cur_pos sb' = out_end_pos sb \<and> crc sb' \<noteq> desired_crc sb))"
proof (cases "out_cur_pos sb = out_end_pos sb")
  case True
  then show ?thesis using uf by (auto simp: deflated_underflow_def)
next
  case False
  then obtain r1 sb1 a1 where lp: "inflate_loop Z sb a = Some (r1, sb1, a1)"
    using uf by (auto simp: deflated_underflow_def split: Option.bind_splits)
  note f = inflate_loop_frame [OF lp]
  show ?thesis
  proof (cases r1)
    case (Inl e)
    then show ?thesis using uf lp f False by (auto simp: deflated_underflow_def)
  next
    case (Inr w)
    then have "w \<noteq> []" using f by simp
    then show ?thesis
      using uf lp f False Inr
      by (auto simp: deflated_underflow_def Let_def split: if_splits)
  qed
qed

text \<open>The read that brings the output cursor to \<open>out_end_pos\<close> with a checksum other than
  the declared one throws.\<close>

lemma deflated_underflow_mismatch:
  assumes uf: "deflated_underflow Z sb a = Some (r, sb', a')"
    and "out_cur_pos sb \<noteq> out_end_pos sb"
    and "out_cur_pos sb' = out_end_pos sb" and "crc sb' \<noteq> desired_crc sb"
  shows "r = Inl ChecksumMismatch"
  using deflated_underflow_cases [OF uf] assms(2,3,4)
  by (cases r) (auto split: option.splits if_splits)

lemma read_to_end_deflated:
  assumes rd: "read_to_end (deflated_underflow Z) sb a acc = Some (bs, e, sb', a')"
    and inv: "0 \<le> gnext sb" "gnext sb \<le> int (length (garea sb))"
      "crc sb = zlib_crc32 0 (acc @ drop (nat (gnext sb)) (garea sb))"
      "out_cur_pos sb = out_end_pos sb \<longrightarrow> crc sb = desired_crc sb"
  shows "out_end_pos sb' = out_end_pos sb \<and> desired_crc sb' = desired_crc sb
       \<and> crc sb' = zlib_crc32 0 (bs @ drop (nat (gnext sb')) (garea sb'))
       \<and> (e = None \<longrightarrow> zlib_crc32 0 bs = desired_crc sb \<and> out_cur_pos sb' = out_end_pos sb)"
proof -
  have "\<forall>Z. uf = deflated_underflow Z \<longrightarrow>
          0 \<le> gnext sb \<longrightarrow> gnext sb \<le> int (length (garea sb)) \<longrightarrow>
          crc sb = zlib_crc32 0 (acc @ drop (nat (gnext sb)) (garea sb)) \<longrightarrow>
          (out_cur_pos sb = out_end_pos sb \<longrightarrow> crc sb = desired_crc sb) \<longrightarrow>
          out_end_pos (fst (snd (snd y))) = out_end_pos sb
        \<and> desired_crc (fst (snd (snd y))) = desired_crc sb
        \<and> crc (fst (snd (snd y)))
            = zlib_crc32 0 (fst y @ drop (nat (gnext (fst (snd (snd y))))) (garea (fst (snd (snd y)))))
        \<and> (fst (snd y) = None \<longrightarrow>
              zlib_crc32 0 (fst y) = desired_crc sb
            \<and> out_cur_pos (fst (snd (snd y))) = out_end_pos sb)"
    if "read_to_end uf sb a acc = Some y" for uf y
  proof (induction rule: read_to_end.raw_induct [OF _ that])
    case (1 rte uf sb a acc y)
    note IH = "1"(1) and body = "1"(2)
    show ?case
    proof (intro allI impI)
      fix Z
      assume uf: "uf = deflated_underflow Z"
        and g0: "0 \<le> gnext sb" and g1: "gnext sb \<le> int (length (garea sb))"
        and c: "crc sb = zlib_crc32 0 (acc @ drop (nat (gnext sb)) (garea sb))"
        and k: "out_cur_pos sb = out_end_pos sb \<longrightarrow> crc sb = desired_crc sb"
      show "out_end_pos (fst (snd (snd y))) = out_end_pos sb
        \<and> desired_crc (fst (snd (snd y))) = desired_crc sb
        \<and> crc (fst (snd (snd y)))
            = zlib_crc32 0 (fst y @ drop (nat (gnext (fst (snd (snd y))))) (garea (fst (snd (snd y)))))
        \<and> (fst (snd y) = None \<longrightarrow>
              zlib_crc32 0 (fst y) = desired_crc sb
            \<and> out_cur_pos (fst (snd (snd y))) = out_end_pos sb)"
      proof (cases "gnext sb < int (length (garea sb))")
        case True
        define n where "n = nat (gnext sb)"
        have n: "n < length (garea sb)" "gnext sb = int n" using True g0 by (simp_all add: n_def)
        have step: "sbumpc uf sb a = Some (Inr (Some (garea sb ! n)), sb\<lparr>gnext := gnext sb + 1\<rparr>, a)"
          using True g0 by (simp add: sbumpc_def n_def)
        have rec: "rte uf (sb\<lparr>gnext := gnext sb + 1\<rparr>) a (acc @ [garea sb ! n]) = Some y"
          using body step by simp
        have dr: "drop n (garea sb) = garea sb ! n # drop (Suc n) (garea sb)"
          using n(1) by (simp add: Cons_nth_drop_Suc)
        have nn: "nat (gnext sb + 1) = Suc n" using n(2) by simp
        have c': "crc (sb\<lparr>gnext := gnext sb + 1\<rparr>)
                    = zlib_crc32 0 ((acc @ [garea sb ! n])
                        @ drop (nat (gnext (sb\<lparr>gnext := gnext sb + 1\<rparr>)))
                            (garea (sb\<lparr>gnext := gnext sb + 1\<rparr>)))"
          using c dr nn by (simp add: n_def)
        show ?thesis
          using IH [OF rec, rule_format, OF uf _ _ c'] g0 True k by simp
      next
        case False
        then have empty: "drop (nat (gnext sb)) (garea sb) = []" by simp
        then have cacc: "crc sb = zlib_crc32 0 acc" using c by simp
        obtain r1 sb1 a1 where u: "deflated_underflow Z sb a = Some (r1, sb1, a1)"
          using body False uf by (auto simp: sbumpc_def split: Option.bind_splits)
        note d = deflated_underflow_cases [OF u]
        show ?thesis
        proof (cases r1)
          case (Inl err)
          then have y: "y = (acc, Some err, sb1, a1)"
            using body False uf u by (simp add: sbumpc_def)
          show ?thesis
            using d Inl cacc empty
            by (auto simp: y zlib_crc32_append split: if_splits)
        next
          case (Inr oc)
          show ?thesis
          proof (cases oc)
            case None
            then have y: "y = (acc, None, sb, a1)" and e: "out_cur_pos sb = out_end_pos sb"
              using body False uf u Inr d by (simp_all add: sbumpc_def)
            show ?thesis using k e cacc empty by (simp add: y)
          next
            case (Some ch)
            then have rec: "rte uf (sb1\<lparr>gnext := gnext sb1 + 1\<rparr>) a1 (acc @ [garea sb1 ! 0]) = Some y"
              using body False uf u Inr d by (simp add: sbumpc_def)
            have ne: "garea sb1 \<noteq> []" and g: "gnext sb1 = 0"
              and c1: "crc sb1 = zlib_crc32 (crc sb) (garea sb1)"
              and k1: "out_cur_pos sb1 = out_end_pos sb \<longrightarrow> crc sb1 = desired_crc sb"
              and fr: "out_end_pos sb1 = out_end_pos sb" "desired_crc sb1 = desired_crc sb"
            proof -
              have d': "out_end_pos sb1 = out_end_pos sb \<and> desired_crc sb1 = desired_crc sb
                 \<and> garea sb1 \<noteq> [] \<and> gnext sb1 = 0
                 \<and> crc sb1 = zlib_crc32 (crc sb) (garea sb1)
                 \<and> (out_cur_pos sb1 = out_end_pos sb \<longrightarrow> crc sb1 = desired_crc sb)"
                using d unfolding Inr Some by (simp (no_asm_use)) blast
              show "garea sb1 \<noteq> []" "gnext sb1 = 0"
                "crc sb1 = zlib_crc32 (crc sb) (garea sb1)"
                "out_cur_pos sb1 = out_end_pos sb \<longrightarrow> crc sb1 = desired_crc sb"
                "out_end_pos sb1 = out_end_pos sb" "desired_crc sb1 = desired_crc sb"
                using d' by blast+
            qed
            have split: "garea sb1 = garea sb1 ! 0 # drop (Suc 0) (garea sb1)"
              using ne by (cases "garea sb1") simp_all
            have c': "crc (sb1\<lparr>gnext := gnext sb1 + 1\<rparr>)
                    = zlib_crc32 0 ((acc @ [garea sb1 ! 0])
                        @ drop (nat (gnext (sb1\<lparr>gnext := gnext sb1 + 1\<rparr>)))
                            (garea (sb1\<lparr>gnext := gnext sb1 + 1\<rparr>)))"
            proof -
              have "crc sb1 = zlib_crc32 0 (acc @ garea sb1)"
                using c1 cacc by (simp add: zlib_crc32_append)
              also have "acc @ garea sb1 = (acc @ [garea sb1 ! 0]) @ drop (Suc 0) (garea sb1)"
                using split by (metis append.assoc append_Cons append_Nil)
              finally show ?thesis using g by simp
            qed
            have len: "gnext (sb1\<lparr>gnext := gnext sb1 + 1\<rparr>)
                         \<le> int (length (garea (sb1\<lparr>gnext := gnext sb1 + 1\<rparr>)))"
              using ne g by (cases "garea sb1") simp_all
            show ?thesis
              using IH [OF rec, rule_format, OF uf _ len c'] g k1 fr by simp
          qed
        qed
      qed
    qed
  qed
  from this [OF rd] inv show ?thesis by simp blast
qed

text \<open>The entry of \<open>exe_deflated\<close>: one call of \<open>underflow\<close> inflates the five bytes of
  \<open>hello\<close>, and a read to the end delivers them.\<close>

lemma hello_crc: "zlib_crc32 0 hello = 0x3610A686"
  by code_simp

lemma hello_facts: "length hello = 5" "hello ! 0 = 0x68" "hello \<noteq> []"
  by (simp_all add: hello_def)

lemma deflated_stream_sel:
  "garea deflated_stream = []" "gnext deflated_stream = 0"
  "out_cur_pos deflated_stream = 0" "out_end_pos deflated_stream = 5"
  "crc deflated_stream = 0" "desired_crc deflated_stream = 0x3610A686"
  by (simp_all add: deflated_stream_def)

lemma inflate_loop_hello:
  "inflate_loop stored_zlib deflated_stream deflated_archive
     = Some (Inr hello, deflated_stream\<lparr>in_cur_pos := 45, zs := ZDone\<rparr>,
             deflated_archive\<lparr>fpos := 45, streampos := 45\<rparr>)"
  by code_simp

lemma deflated_underflow_hello:
  "deflated_underflow stored_zlib deflated_stream deflated_archive
     = Some (Inr (Some 0x68),
             deflated_stream\<lparr>garea := hello, in_cur_pos := 45, out_cur_pos := 5,
                              crc := 0x3610A686, zs := ZDone\<rparr>,
             deflated_archive\<lparr>fpos := 45, streampos := 45\<rparr>)"
  by (simp add: deflated_underflow_def inflate_loop_hello deflated_stream_sel hello_crc
        hello_facts Let_def)

lemma read_to_end_hello:
  "read_to_end (deflated_underflow stored_zlib) deflated_stream deflated_archive []
     = Some (hello, None,
             deflated_stream\<lparr>garea := hello, gnext := 5, in_cur_pos := 45, out_cur_pos := 5,
                              crc := 0x3610A686, zs := ZDone\<rparr>,
             deflated_archive\<lparr>fpos := 45, streampos := 45\<rparr>)"
  apply (subst read_to_end.simps)
  apply (simp add: sbumpc_def deflated_underflow_hello deflated_stream_sel hello_facts)
  apply (subst read_to_end_drain)
    apply (simp_all add: hello_facts)
  apply (subst read_to_end.simps)
  apply (simp add: sbumpc_def deflated_underflow_def deflated_stream_sel hello_facts)
  apply (simp add: hello_def)
  done

text \<open>The entry of \<open>exe_bad_crc\<close> holds the same bytes and declares another checksum: the
  call of \<open>underflow\<close> that inflates them throws.\<close>

lemma inflate_loop_bad_crc:
  "inflate_loop stored_zlib (deflated_stream\<lparr>desired_crc := 0x3610A687\<rparr>) bad_crc_archive
     = Some (Inr hello, deflated_stream\<lparr>in_cur_pos := 45, desired_crc := 0x3610A687, zs := ZDone\<rparr>,
             bad_crc_archive\<lparr>fpos := 45, streampos := 45\<rparr>)"
  by code_simp

lemma deflated_underflow_bad_crc:
  "deflated_underflow stored_zlib (deflated_stream\<lparr>desired_crc := 0x3610A687\<rparr>) bad_crc_archive
     = Some (Inl ChecksumMismatch,
             deflated_stream\<lparr>garea := hello, in_cur_pos := 45, out_cur_pos := 5,
                              desired_crc := 0x3610A687, crc := 0x3610A686, zs := ZDone\<rparr>,
             bad_crc_archive\<lparr>fpos := 45, streampos := 45\<rparr>)"
  by (simp add: deflated_underflow_def inflate_loop_bad_crc deflated_stream_sel hello_crc
        hello_facts Let_def)

lemma read_to_end_bad_crc:
  "read_to_end (deflated_underflow stored_zlib) (deflated_stream\<lparr>desired_crc := 0x3610A687\<rparr>)
       bad_crc_archive []
     = Some ([], Some ChecksumMismatch,
             deflated_stream\<lparr>garea := hello, in_cur_pos := 45, out_cur_pos := 5,
                              desired_crc := 0x3610A687, crc := 0x3610A686, zs := ZDone\<rparr>,
             bad_crc_archive\<lparr>fpos := 45, streampos := 45\<rparr>)"
  apply (subst read_to_end.simps)
  apply (simp add: sbumpc_def deflated_underflow_bad_crc deflated_stream_sel)
  done

text \<open>
  The entries that hold at least one byte are checked: let \<open>open\<close> make the stream
  \<open>sb\<close> of a deflate entry \<open>f\<close> whose uncompressed size is not 0, and let a read to the
  end of it return the bytes \<open>bs\<close>. Then the checksum member of the stream is the CRC32 of
  all the bytes inflated (those delivered and those still in the get area); if the read
  ended with the end of the data and not with an error, the CRC32 of \<open>bs\<close> is the
  declared checksum and the output cursor is at \<open>uncompressed_size\<close>; and every call of
  \<open>underflow\<close> on a stream of this entry that brings the output cursor to
  \<open>uncompressed_size\<close> with another checksum throws \<open>checksum mismatch\<close>.
\<close>

lemma deflated_read_checks_crc:
  assumes fo: "file_open Z f = Inr (Deflated sb)" and ne: "uncompressed_size f \<noteq> 0"
    and rd: "read_to_end (deflated_underflow Z) sb a [] = Some (bs, e, sb', a')"
  shows "crc sb' = zlib_crc32 0 (bs @ drop (nat (gnext sb')) (garea sb'))
       \<and> (e = None \<longrightarrow> zlib_crc32 0 bs = crc32 f \<and> out_cur_pos sb' = uncompressed_size f)
       \<and> (\<forall>s b r s' b'.
             deflated_underflow Z s b = Some (r, s', b') \<and> out_end_pos s = uncompressed_size f
             \<and> desired_crc s = crc32 f \<and> out_cur_pos s \<noteq> uncompressed_size f
             \<and> out_cur_pos s' = uncompressed_size f \<and> crc s' \<noteq> crc32 f
             \<longrightarrow> r = Inl ChecksumMismatch)"
proof -
  have sb: "garea sb = []" "gnext sb = 0" "crc sb = 0" "out_cur_pos sb = 0"
    "out_end_pos sb = uncompressed_size f" "desired_crc sb = crc32 f"
    using fo by (auto simp: file_open_def CRC32_new_def split: if_splits option.splits)
  have inv: "0 \<le> gnext sb" "gnext sb \<le> int (length (garea sb))"
    "crc sb = zlib_crc32 0 ([] @ drop (nat (gnext sb)) (garea sb))"
    "out_cur_pos sb = out_end_pos sb \<longrightarrow> crc sb = desired_crc sb"
    using sb ne by auto
  note r = read_to_end_deflated [OF rd inv]
  have m: "\<forall>s b r s' b'.
             deflated_underflow Z s b = Some (r, s', b') \<and> out_end_pos s = uncompressed_size f
             \<and> desired_crc s = crc32 f \<and> out_cur_pos s \<noteq> uncompressed_size f
             \<and> out_cur_pos s' = uncompressed_size f \<and> crc s' \<noteq> crc32 f
             \<longrightarrow> r = Inl ChecksumMismatch"
    by (metis deflated_underflow_mismatch)
  show ?thesis using r sb m by simp
qed

text \<open>The entry of \<open>exe_deflated\<close> is read to its end and its bytes have the declared
  checksum; the read of the entry of \<open>exe_bad_crc\<close> ends with \<open>checksum mismatch\<close>, and
  the checksum member holds the CRC32 of the five bytes inflated.\<close>

lemma deflated_read_checks_crc_runs:
  "file_open stored_zlib (files deflated_archive ! 0) = Inr (Deflated deflated_stream)
   \<and> uncompressed_size (files deflated_archive ! 0) = 5
   \<and> read_to_end (deflated_underflow stored_zlib) deflated_stream deflated_archive []
       = Some (hello, None,
               deflated_stream\<lparr>garea := hello, gnext := 5, in_cur_pos := 45, out_cur_pos := 5,
                                crc := 0x3610A686, zs := ZDone\<rparr>,
               deflated_archive\<lparr>fpos := 45, streampos := 45\<rparr>)
   \<and> zlib_crc32 0 hello = crc32 (files deflated_archive ! 0)
   \<and> file_open stored_zlib (files bad_crc_archive ! 0)
       = Inr (Deflated (deflated_stream\<lparr>desired_crc := 0x3610A687\<rparr>))
   \<and> read_to_end (deflated_underflow stored_zlib) (deflated_stream\<lparr>desired_crc := 0x3610A687\<rparr>)
         bad_crc_archive []
       = Some ([], Some ChecksumMismatch,
               deflated_stream\<lparr>garea := hello, in_cur_pos := 45, out_cur_pos := 5,
                                desired_crc := 0x3610A687, crc := 0x3610A686, zs := ZDone\<rparr>,
               bad_crc_archive\<lparr>fpos := 45, streampos := 45\<rparr>)
   \<and> zlib_crc32 0 hello = 0x3610A686"
proof -
  have s1: "uncompressed_size (files deflated_archive ! 0) = 5"
    and s2: "uncompressed_size (files bad_crc_archive ! 0) = 5"
    by (simp_all add: deflated_archive_code bad_crc_archive_code)
  have n1: "uncompressed_size (files deflated_archive ! 0) \<noteq> 0"
    and n2: "uncompressed_size (files bad_crc_archive ! 0) \<noteq> 0"
    by (simp_all add: s1 s2)
  have "zlib_crc32 0 hello = crc32 (files deflated_archive ! 0)"
    using deflated_read_checks_crc [OF file_open_deflated n1 read_to_end_hello] by simp
  moreover have "zlib_crc32 0 hello = 0x3610A686"
    using conjunct1 [OF deflated_read_checks_crc [OF file_open_bad_crc n2 read_to_end_bad_crc]]
    by (simp add: deflated_stream_sel)
  ultimately show ?thesis
    using file_open_deflated file_open_bad_crc read_to_end_hello read_to_end_bad_crc s1
    by simp
qed

text \<open>
  Claim C2 says that a read to the end of a deflate entry folds every byte into the
  running CRC32, that the read which brings the output cursor to \<open>uncompressed_size\<close>
  fails when the checksum differs from the declared one, and that a read to the end of
  data with another checksum never completes silently. \<open>underflow\<close> compares the
  checksums when the output cursor reaches \<open>out_end_pos\<close>, but only after it has
  inflated at least one byte: its first statement returns end of file when the output
  cursor is at \<open>out_end_pos\<close>. An entry of uncompressed size 0 is at its end when it
  is opened, so the comparison is never reached: whatever zlib does and whatever checksum
  the entry declares, the read to the end of an empty deflate entry completes at once,
  with no byte, no error and the stream and the archive untouched.
\<close>

theorem empty_deflated_entry_is_not_checked:
  assumes "file_open Z f = Inr (Deflated sb)" and "uncompressed_size f = 0"
  shows "read_to_end (deflated_underflow Z) sb a [] = Some ([], None, sb, a)"
proof -
  have sb: "garea sb = []" "gnext sb = 0" "out_cur_pos sb = 0" "out_end_pos sb = 0"
    using assms by (auto simp: file_open_def split: if_splits option.splits)
  show ?thesis
    by (subst read_to_end.simps) (simp add: sbumpc_def deflated_underflow_def sb)
qed

text \<open>
  \<open>exe_empty_deflated\<close> holds a deflate entry of uncompressed size 0 that declares the
  checksum 1; the CRC32 of no bytes is 0. \<open>init\<close> accepts the file and the read to the
  end of the entry completes.
\<close>

theorem empty_deflated_entry_is_not_checked_witness:
  "fst (init (Some exe_empty_deflated) new_archive) = Inr ()
   \<and> file_open stored_zlib (files empty_deflated_archive ! 0)
       = Inr (Deflated empty_deflated_stream)
   \<and> uncompressed_size (files empty_deflated_archive ! 0) = 0
   \<and> crc32 (files empty_deflated_archive ! 0) = 1
   \<and> zlib_crc32 0 [] = 0
   \<and> read_to_end (deflated_underflow stored_zlib) empty_deflated_stream empty_deflated_archive []
       = Some ([], None, empty_deflated_stream, empty_deflated_archive)"
proof -
  have i: "fst (init (Some exe_empty_deflated) new_archive) = Inr ()"
    by (simp add: init_exe_empty_deflated)
  have f: "uncompressed_size (files empty_deflated_archive ! 0) = 0"
    "crc32 (files empty_deflated_archive ! 0) = 1"
    by (simp_all add: empty_deflated_archive_code)
  have c: "zlib_crc32 0 [] = 0" by simp
  note rd = empty_deflated_entry_is_not_checked
    [OF file_open_empty_deflated f(1), of empty_deflated_archive]
  show ?thesis by (intro conjI i file_open_empty_deflated f c rd)
qed

section \<open>Seeking in a deflated stream\<close>

text \<open>When the loop of \<open>seekpos\<close> ends without an exception, the output cursor is at
  \<open>out_end_pos\<close> or before the offset sought.\<close>

lemma seek_loop_exit:
  assumes "seek_loop Z off sb a = Some (Inr (), sb', a')"
  shows "out_end_pos sb' = out_end_pos sb
       \<and> (out_cur_pos sb' = out_end_pos sb' \<or> uint (out_cur_pos sb') < off)"
proof -
  have "fst y = Inr () \<longrightarrow> out_end_pos (fst (snd y)) = out_end_pos sb
       \<and> (out_cur_pos (fst (snd y)) = out_end_pos (fst (snd y))
          \<or> uint (out_cur_pos (fst (snd y))) < off)"
    if "seek_loop Z off sb a = Some y" for y
  proof (induction rule: seek_loop.raw_induct [OF _ that])
    case (1 loop Z off sb a y)
    note IH = "1"(1) and body = "1"(2)
    obtain r1 sb1 a1 where u: "deflated_underflow Z sb a = Some (r1, sb1, a1)"
      using body by (auto split: Option.bind_splits)
    note d = deflated_underflow_cases [OF u]
    show ?case
    proof (cases r1)
      case (Inl e)
      then show ?thesis using body u by auto
    next
      case (Inr oc)
      show ?thesis
      proof (cases oc)
        case None
        then show ?thesis using body u Inr d by auto
      next
        case (Some c)
        have fr: "out_end_pos sb1 = out_end_pos sb" using d by simp
        show ?thesis
        proof (cases "off \<le> uint (out_cur_pos sb1)")
          case True
          then have "loop Z off sb1 a1 = Some y" using body u Inr Some by simp
          from IH [OF this] show ?thesis using fr by auto
        next
          case False
          then have "y = (Inr (), sb1, a1)" using body u Inr Some by auto
          then show ?thesis using False fr by simp
        qed
      qed
    qed
  qed
  from this [OF assms] show ?thesis by auto
qed

text \<open>
  The loop of \<open>deflated_streambuf::seekpos\<close> goes on while \<open>out_cur_pos >= off\<close>, that
  is while the offset sought has been reached, and \<open>seekpos\<close> returns \<open>eof()\<close>, the
  position \<open>-1\<close>, when the loop leaves the output cursor at \<open>out_end_pos\<close>. So a seek
  that has to inflate anything (the offset \<open>t\<close> sought, after clamping, is neither 0 nor
  the output cursor) never arrives: it fails or stops short of \<open>t\<close>.
\<close>

lemma deflated_seekpos_misses:
  assumes sp: "deflated_seekpos Z off sb a = Some (Inr p, sb', a')"
    and t: "t = (if off < 0 then 0
                 else if off > uint (out_end_pos sb) then uint (out_end_pos sb) else off)"
    and t0: "t \<noteq> 0" and tc: "t \<noteq> uint (out_cur_pos sb)"
  shows "p = - 1 \<or> (0 \<le> p \<and> p < t)"
proof -
  define sb0 where "sb0 = (if t < uint (out_cur_pos sb)
                then sb\<lparr>zs := inflateReset Z (zs sb), crc := CRC32_new,
                        in_cur_pos := in_start_pos sb, out_cur_pos := 0\<rparr>
                else sb)"
  have ne: "t \<noteq> uint (out_cur_pos sb0)" using t0 tc by (simp add: sb0_def)
  have sp': "Option.bind (seek_loop Z t sb0 a) (\<lambda>(r, sb', a').
           case r of
             Inl e \<Rightarrow> Some (Inl e, sb', a')
           | Inr _ \<Rightarrow>
               if out_cur_pos sb' = out_end_pos sb' then Some (Inr (- 1), sb', a')
               else
                 let overshoot_amount = uint (out_cur_pos sb') - t
                 in Some (Inr (uint (out_cur_pos sb')),
                          sb'\<lparr>gnext := int (length (garea sb')) - overshoot_amount\<rparr>, a'))
          = Some (Inr p, sb', a')"
    using sp ne unfolding deflated_seekpos_def t [symmetric] Let_def sb0_def [symmetric]
    by simp
  then obtain r1 sb1 a1 where sl: "seek_loop Z t sb0 a = Some (r1, sb1, a1)"
    by (auto split: Option.bind_splits)
  have r1: "r1 = Inr ()" using sp' sl by (cases r1) auto
  note x = seek_loop_exit [OF sl [unfolded r1]]
  show ?thesis
  proof (cases "out_cur_pos sb1 = out_end_pos sb1")
    case True
    then have "p = - 1" using sp' sl r1 by simp
    then show ?thesis by simp
  next
    case False
    then have "p = uint (out_cur_pos sb1)" using sp' sl r1 by (simp add: Let_def)
    then show ?thesis using x False by simp
  qed
qed

lemma seek_loop_hello:
  "seek_loop stored_zlib 5 deflated_stream deflated_archive
     = Some (Inr (),
             deflated_stream\<lparr>garea := hello, in_cur_pos := 45, out_cur_pos := 5,
                              crc := 0x3610A686, zs := ZDone\<rparr>,
             deflated_archive\<lparr>fpos := 45, streampos := 45\<rparr>)"
  apply (subst seek_loop.simps)
  apply (simp add: deflated_underflow_hello)
  apply (subst seek_loop.simps)
  apply (simp add: deflated_underflow_def deflated_stream_sel)
  done

lemma deflated_seekpos_hello:
  "deflated_seekpos stored_zlib 100 deflated_stream deflated_archive
     = Some (Inr (- 1),
             deflated_stream\<lparr>garea := hello, in_cur_pos := 45, out_cur_pos := 5,
                              crc := 0x3610A686, zs := ZDone\<rparr>,
             deflated_archive\<lparr>fpos := 45, streampos := 45\<rparr>)"
  by (simp add: deflated_seekpos_def seek_loop_hello deflated_stream_sel Let_def)

text \<open>
  Claim C4 says that, for both kinds of stream, a seek to a target outside
  \<open>[0, uncompressed_size]\<close> succeeds with the position clamped to the nearest bound, and
  that reads at \<open>uncompressed_size\<close> report the end of the data. Both \<open>seekpos\<close> clamp
  their argument, and \<open>deflated_streambuf::seekpos\<close> then runs its loop: for every
  deflated stream that is not at the end of a non-empty entry, a seek beyond
  \<open>uncompressed_size\<close> that returns a position returns \<open>-1\<close>, with which \<open>seekg\<close>
  fails, or a position before \<open>uncompressed_size\<close>; it never returns
  \<open>uncompressed_size\<close>.
\<close>

theorem deflated_seek_past_end_is_not_clamped:
  assumes "deflated_seekpos Z off sb a = Some (Inr p, sb', a')"
    and "uint (out_end_pos sb) < off"
    and "out_end_pos sb \<noteq> 0" and "out_cur_pos sb \<noteq> out_end_pos sb"
  shows "p = - 1 \<or> (0 \<le> p \<and> p < uint (out_end_pos sb))"
proof -
  let ?E = "uint (out_end_pos sb)"
  have "0 \<le> ?E" by simp
  with assms(2) have "\<not> off < 0" by linarith
  then have t: "?E = (if off < 0 then 0 else if off > ?E then ?E else off)"
    using assms(2) by simp
  have t0: "?E \<noteq> 0" using assms(3) by (simp add: uint_0_iff)
  have tc: "?E \<noteq> uint (out_cur_pos sb)" using assms(4) by (simp add: word_uint_eq_iff)
  from deflated_seekpos_misses [OF assms(1) t t0 tc] show ?thesis .
qed

text \<open>A fresh stream on the five bytes of the entry of \<open>exe_deflated\<close>: \<open>seekg(100)\<close>
  fails.\<close>

theorem deflated_seek_past_end_is_not_clamped_witness:
  "file_open stored_zlib (files deflated_archive ! 0) = Inr (Deflated deflated_stream)
   \<and> uint (out_end_pos deflated_stream) = 5
   \<and> out_cur_pos deflated_stream = 0
   \<and> deflated_seekpos stored_zlib 100 deflated_stream deflated_archive
       = Some (Inr (- 1),
               deflated_stream\<lparr>garea := hello, in_cur_pos := 45, out_cur_pos := 5,
                                crc := 0x3610A686, zs := ZDone\<rparr>,
               deflated_archive\<lparr>fpos := 45, streampos := 45\<rparr>)
   \<and> ((- 1 :: int) = - 1 \<or> (0 \<le> (- 1 :: int) \<and> (- 1 :: int) < uint (out_end_pos deflated_stream)))"
proof -
  have a: "uint (out_end_pos deflated_stream) < 100"
    and b: "out_end_pos deflated_stream \<noteq> 0"
    and c: "out_cur_pos deflated_stream \<noteq> out_end_pos deflated_stream"
    by (simp_all add: deflated_stream_sel)
  from deflated_seek_past_end_is_not_clamped [OF deflated_seekpos_hello a b c]
  show ?thesis
    using file_open_deflated deflated_seekpos_hello by (simp add: deflated_stream_sel)
qed

end
